theory Spec2Isabelle
  imports Complex_Main "HOL-Library.Char_ord"
begin

section \<open>Python values used by \<open>experiments/lm_rnn.py\<close>\<close>

text \<open>
  The script is Python. Its integers are unbounded (\<open>int\<close>, or \<open>nat\<close> where the value is a
  length or a token index); a string is the list of its characters, over any linearly
  ordered character type (code points ordered as Python orders them; the examples use
  \<open>char\<close>). Every exception the script itself can raise is a value of \<open>error\<close>; a function
  that may raise returns \<open>error + 'a\<close>, with \<open>Inl\<close> the exception.
\<close>

datatype error =
  KeyError | IndexError | ValueError | ZeroDivisionError | FileNotFoundError | RuntimeError

text \<open>\<open>range(start, stop, step)\<close>: a zero step raises, a positive step counts up while
  \<open>i < stop\<close>, a negative step counts down while \<open>i > stop\<close>.\<close>

function range_up :: "int \<Rightarrow> int \<Rightarrow> int \<Rightarrow> int list" where
  "range_up i stop step =
     (if 0 < step \<and> i < stop then i # range_up (i + step) stop step else [])"
  by pat_completeness auto
termination
  by (relation "measure (\<lambda>(i, stop, step). nat (stop - i))") auto

function range_down :: "int \<Rightarrow> int \<Rightarrow> int \<Rightarrow> int list" where
  "range_down i stop step =
     (if step < 0 \<and> stop < i then i # range_down (i + step) stop step else [])"
  by pat_completeness auto
termination
  by (relation "measure (\<lambda>(i, stop, step). nat (i - stop))") auto

declare range_up.simps [simp del] range_down.simps [simp del]

definition py_range :: "int \<Rightarrow> int \<Rightarrow> int \<Rightarrow> error + int list" where
  "py_range start stop step =
     (if step = 0 then Inl ValueError
      else if 0 < step then Inr (range_up start stop step)
      else Inr (range_down start stop step))"

text \<open>\<open>l[a:b]\<close>: a negative bound counts from the end, and both bounds are clamped to
  \<open>0 .. len(l)\<close>; an empty or inverted interval is the empty list.\<close>

definition slice_index :: "nat \<Rightarrow> int \<Rightarrow> nat" where
  "slice_index n i = (if i < 0 then nat (max 0 (i + int n)) else min n (nat i))"

definition py_slice :: "'a list \<Rightarrow> int \<Rightarrow> int \<Rightarrow> 'a list" where
  "py_slice l a b =
     (let lo = slice_index (length l) a; hi = slice_index (length l) b
      in take (hi - lo) (drop lo l))"

text \<open>\<open>l[:-1]\<close> and \<open>l[1:]\<close> (an omitted bound is \<open>0\<close>, respectively \<open>len(l)\<close>).\<close>

definition slice_to_last :: "'a list \<Rightarrow> 'a list" where
  "slice_to_last l = py_slice l 0 (- 1)"

definition slice_from_1 :: "'a list \<Rightarrow> 'a list" where
  "slice_from_1 l = py_slice l 1 (int (length l))"

text \<open>A dict comprehension \<open>{k: v for ...}\<close>: the pairs are stored in order, a later pair
  overwriting an earlier one with the same key.\<close>

definition dict_of :: "('k \<times> 'v) list \<Rightarrow> ('k \<rightharpoonup> 'v)" where
  "dict_of kvs = fold (\<lambda>(k, v) m. m(k \<mapsto> v)) kvs Map.empty"

text \<open>\<open>d[k]\<close> raises \<open>KeyError\<close> when the key is missing.\<close>

definition getitem :: "('k \<rightharpoonup> 'v) \<Rightarrow> 'k \<Rightarrow> error + 'v" where
  "getitem d k = (case d k of None \<Rightarrow> Inl KeyError | Some v \<Rightarrow> Inr v)"

section \<open>Module level: the corpus split and the vocabulary (lines 11--23)\<close>

text \<open>The module reads the corpus once; \<open>text\<close> below is what it read.\<close>

definition train_size :: "'c list \<Rightarrow> nat" where
  "train_size text = length text * 7 div 10"

definition train_set :: "'c list \<Rightarrow> 'c list" where
  "train_set text = take (train_size text) text"

definition val_set :: "'c list \<Rightarrow> 'c list" where
  "val_set text = drop (train_size text) text"

definition vocab :: "'c::linorder list \<Rightarrow> 'c list" where
  "vocab text = sorted_list_of_set (set (train_set text))"

definition vocab_size :: "'c::linorder list \<Rightarrow> nat" where
  "vocab_size text = length (vocab text)"

definition char2idx :: "'c::linorder list \<Rightarrow> ('c \<rightharpoonup> nat)" where
  "char2idx text = dict_of (map (\<lambda>(idx, char). (char, idx)) (enumerate 0 (vocab text)))"

section \<open>The windowed dataset \<open>LMDataset\<close> (lines 26--43)\<close>

text \<open>\<open>[char2idx[char] for char in txt]\<close>, over any mapping \<open>d\<close>: the first missing character
  raises.\<close>

fun encode :: "('c \<rightharpoonup> nat) \<Rightarrow> 'c list \<Rightarrow> error + nat list" where
  "encode d [] = Inr []"
| "encode d (c # cs) =
     (case getitem d c of
        Inl e \<Rightarrow> Inl e
      | Inr i \<Rightarrow> (case encode d cs of Inl e \<Rightarrow> Inl e | Inr r \<Rightarrow> Inr (i # r)))"

text \<open>\<open>torch.LongTensor(rows)\<close> of a list of lists: the rows must have one length.\<close>

definition LongTensor2 :: "nat list list \<Rightarrow> error + nat list list" where
  "LongTensor2 rows =
     (if list_all (\<lambda>r. length r = length (hd rows)) rows then Inr rows else Inl ValueError)"

record LMDataset =
  xs :: "nat list list"
  ys :: "nat list list"

text \<open>The body of the \<open>for i in range(...)\<close> loop, over the start indices still to visit;
  \<open>ax\<close> and \<open>ay\<close> are the lists \<open>xs\<close> and \<open>ys\<close> built so far.\<close>

fun windows ::
  "('c \<rightharpoonup> nat) \<Rightarrow> 'c list \<Rightarrow> int \<Rightarrow> nat list list \<Rightarrow> nat list list \<Rightarrow> int list
    \<Rightarrow> error + (nat list list \<times> nat list list)" where
  "windows d dataset max_length ax ay [] = Inr (ax, ay)"
| "windows d dataset max_length ax ay (i # rest) =
     (case encode d (py_slice dataset i (i + max_length + 1)) of
        Inl e \<Rightarrow> Inl e
      | Inr indices \<Rightarrow>
          windows d dataset max_length
            (ax @ [slice_to_last indices]) (ay @ [slice_from_1 indices]) rest)"

definition LMDataset_init :: "('c \<rightharpoonup> nat) \<Rightarrow> 'c list \<Rightarrow> int \<Rightarrow> error + LMDataset" where
  "LMDataset_init d dataset max_length =
     (case py_range 0 (int (length dataset) - max_length - 2) max_length of
        Inl e \<Rightarrow> Inl e
      | Inr starts \<Rightarrow>
          (case windows d dataset max_length [] [] starts of
             Inl e \<Rightarrow> Inl e
           | Inr (ax, ay) \<Rightarrow>
               (case LongTensor2 ax of
                  Inl e \<Rightarrow> Inl e
                | Inr tx \<Rightarrow>
                    (case LongTensor2 ay of
                       Inl e \<Rightarrow> Inl e
                     | Inr ty \<Rightarrow> Inr \<lparr>xs = tx, ys = ty\<rparr>))))"

definition LMDataset_len :: "LMDataset \<Rightarrow> nat" where
  "LMDataset_len ds = length (xs ds)"

text \<open>\<open>l[i]\<close> for a list and a non-negative index.\<close>

definition list_getitem :: "'a list \<Rightarrow> nat \<Rightarrow> error + 'a" where
  "list_getitem l i = (if i < length l then Inr (l ! i) else Inl IndexError)"

section \<open>The batch iterators \<open>Datasets\<close> (lines 46--53)\<close>

text \<open>
  \<open>DataLoader(dataset, batch_size, shuffle=True)\<close> belongs to the tensor framework. One pass
  over it draws a random order of the example indices from the framework's generator
  (\<open>randperm\<close>, a parameter; \<open>'g\<close> is the generator's state), cuts it into runs of
  \<open>batch_size\<close> indices (the last run may be shorter) and stacks the examples of each run:
  a batch is the pair of the stacked inputs and the stacked targets, both of shape
  \<open>[N, L]\<close>. Building the loader raises \<open>ValueError\<close> for a dataset with no example (the
  shuffling sampler needs at least one) and for a batch size that is not positive.
\<close>

type_synonym batch = "nat list list \<times> nat list list"

datatype DataLoader = DataLoader LMDataset nat

definition DataLoader_init :: "LMDataset \<Rightarrow> int \<Rightarrow> error + DataLoader" where
  "DataLoader_init ds batch_size =
     (if LMDataset_len ds = 0 then Inl ValueError
      else if batch_size \<le> 0 then Inl ValueError
      else Inr (DataLoader ds (nat batch_size)))"

function chunks :: "nat \<Rightarrow> 'a list \<Rightarrow> 'a list list" where
  "chunks n l = (if n = 0 \<or> l = [] then [] else take n l # chunks n (drop n l))"
  by pat_completeness auto
termination
  by (relation "measure (\<lambda>(n, l). length l)") auto

declare chunks.simps [simp del]

definition collate :: "LMDataset \<Rightarrow> nat list \<Rightarrow> batch" where
  "collate ds idxs = (map (\<lambda>i. xs ds ! i) idxs, map (\<lambda>i. ys ds ! i) idxs)"

fun DataLoader_iter :: "(nat \<Rightarrow> 'g \<Rightarrow> nat list \<times> 'g) \<Rightarrow> DataLoader \<Rightarrow> 'g \<Rightarrow> batch list \<times> 'g" where
  "DataLoader_iter randperm (DataLoader ds batch_size) g =
     (let (perm, g') = randperm (LMDataset_len ds) g
      in (map (collate ds) (chunks batch_size perm), g'))"

record Datasets =
  train_loader :: DataLoader
  val_loader :: DataLoader

text \<open>\<open>Datasets.__init__\<close>, in the module whose corpus is \<open>text\<close>: the constructors run in
  the order of the source, and the first one that raises ends the construction.\<close>

definition Datasets_init :: "'c::linorder list \<Rightarrow> int \<Rightarrow> int \<Rightarrow> error + Datasets" where
  "Datasets_init text batch_size max_length =
     (case LMDataset_init (char2idx text) (train_set text) max_length of
        Inl e \<Rightarrow> Inl e
      | Inr train_ds \<Rightarrow>
          (case DataLoader_init train_ds batch_size of
             Inl e \<Rightarrow> Inl e
           | Inr train_dl \<Rightarrow>
               (case LMDataset_init (char2idx text) (val_set text) max_length of
                  Inl e \<Rightarrow> Inl e
                | Inr val_ds \<Rightarrow>
                    (case DataLoader_init val_ds (batch_size * 2) of
                       Inl e \<Rightarrow> Inl e
                     | Inr val_dl \<Rightarrow> Inr \<lparr>train_loader = train_dl, val_loader = val_dl\<rparr>))))"

section \<open>The trainer (lines 98--187)\<close>

text \<open>
  In the trainer a batch of tokens or targets is a nested list of shape \<open>[N, L]\<close>, the
  model's output one of shape \<open>[N, L, C]\<close>. Floating-point numbers are idealised as reals;
  a framework failure (device, memory, shapes that do not fit) ends the run and is not
  modelled, so elementwise operations pair their operands position by position. Dividing
  one zero-dimensional tensor by another never raises: a zero divisor gives an infinity or
  not-a-number, which \<open>fval\<close> keeps apart from the numbers.
\<close>

datatype fval = Val real | PosInf | NegInf | NaN

definition tensor_div :: "real \<Rightarrow> nat \<Rightarrow> fval" where
  "tensor_div a n =
     (if n \<noteq> 0 then Val (a / real n)
      else if 0 < a then PosInf else if a < 0 then NegInf else NaN)"

text \<open>\<open>tokens.gt(0.0)\<close>, \<open>masks.sum()\<close>, \<open>output.argmax(dim=-1)\<close>, \<open>a.eq(b)\<close>, the product of two
  boolean tensors, the product of a float tensor with a boolean one, \<open>a.sum()\<close> and
  \<open>output.permute(dims=(0, 2, 1))\<close>.\<close>

definition gt0 :: "nat list list \<Rightarrow> bool list list" where
  "gt0 a = map (map (\<lambda>t. 0 < t)) a"

definition mask_sum :: "bool list list \<Rightarrow> nat" where
  "mask_sum a = (\<Sum>b\<leftarrow>concat a. of_bool b)"

definition argmax_vec :: "real list \<Rightarrow> nat" where
  "argmax_vec v =
     fst (fold (\<lambda>(i, z) (bi, bz). if bz < z then (i, z) else (bi, bz))
            (enumerate 1 (tl v)) (0, hd v))"

definition argmax_last :: "real list list list \<Rightarrow> nat list list" where
  "argmax_last a = map (map argmax_vec) a"

definition eq_tensor :: "nat list list \<Rightarrow> nat list list \<Rightarrow> bool list list" where
  "eq_tensor a b = map2 (map2 (=)) a b"

definition mul_bool :: "bool list list \<Rightarrow> bool list list \<Rightarrow> bool list list" where
  "mul_bool a b = map2 (map2 (\<and>)) a b"

definition mul_mask :: "real list list \<Rightarrow> bool list list \<Rightarrow> real list list" where
  "mul_mask a b = map2 (map2 (\<lambda>z m. z * of_bool m)) a b"

definition tensor_sum :: "real list list \<Rightarrow> real" where
  "tensor_sum a = sum_list (concat a)"

definition permute_021 :: "'a list list list \<Rightarrow> 'a list list list" where
  "permute_021 a = map transpose a"

text \<open>\<open>torch.nn.NLLLoss(reduction="none")\<close>, the loss function \<open>train()\<close> passes to the trainer:
  for an input of shape \<open>[N, C, L]\<close> and a target of shape \<open>[N, L]\<close> the loss at \<open>(n, l)\<close> is
  \<open>- input[n][target[n][l]][l]\<close>.\<close>

definition NLLLoss_none :: "real list list list \<Rightarrow> nat list list \<Rightarrow> real list list" where
  "NLLLoss_none inp target =
     map2 (\<lambda>cls row. map (\<lambda>(l, t). - (cls ! t ! l)) (enumerate 0 row)) inp target"

text \<open>
  What the trainer needs of the framework, as parameters: calling the model on a batch,
  one optimisation step (\<open>zero_grad\<close>, \<open>backward\<close> on the batch's loss, \<open>step\<close>), which gives
  the updated model and optimizer, the random order of a loader's pass, and the model's
  state dictionary.
\<close>

record ('m, 'o, 'g, 'sd) torch =
  forward :: "'m \<Rightarrow> nat list list \<Rightarrow> real list list list"
  backward_step ::
    "'m \<Rightarrow> 'o \<Rightarrow> (real list list list \<Rightarrow> nat list list \<Rightarrow> real list list) \<Rightarrow> batch \<Rightarrow> 'm \<times> 'o"
  randperm :: "nat \<Rightarrow> 'g \<Rightarrow> nat list \<times> 'g"
  state_dict :: "'m \<Rightarrow> 'sd"

text \<open>A row of the metrics log is \<open>[train_loss, val_loss, accuracy]\<close>, with \<open>None\<close> for a
  field that does not apply.\<close>

type_synonym row = "fval option \<times> fval option \<times> fval option"

record ('m, 'o) Trainer =
  datasets :: Datasets
  model :: 'm
  optimizer :: 'o
  loss_fn :: "real list list list \<Rightarrow> nat list list \<Rightarrow> real list list"
  results_path :: string
  train_df :: "(string list \<times> row list) option"

text \<open>\<open>Trainer.loss\<close> (lines 156--158).\<close>

definition Trainer_loss ::
  "('m, 'o) Trainer \<Rightarrow> real list list list \<Rightarrow> nat list list \<Rightarrow> bool list list \<Rightarrow> real" where
  "Trainer_loss self output target masks =
     (let masked_losses = mul_mask (loss_fn self (permute_021 output) target) masks
      in tensor_sum masked_losses)"

text \<open>\<open>Trainer.validate\<close> (lines 135--154). The loop over the batches of one pass carries
  \<open>tokens_count\<close>, \<open>val_loss\<close> and \<open>correct\<close>. They start as the Python integer \<open>0\<close> and are
  tensors from the first batch on: with no batch at all the final division is Python's
  \<open>0 / 0\<close>, which raises; otherwise it is the tensors' division.\<close>

fun validate_loop ::
  "('m, 'o, 'g, 'sd) torch \<Rightarrow> ('m, 'o) Trainer \<Rightarrow> nat \<times> real \<times> nat \<Rightarrow> batch list
    \<Rightarrow> nat \<times> real \<times> nat" where
  "validate_loop fw self (tokens_count, val_loss, correct) [] = (tokens_count, val_loss, correct)"
| "validate_loop fw self (tokens_count, val_loss, correct) ((tokens, target) # rest) =
     (let masks = gt0 tokens;
          tokens_count = tokens_count + mask_sum masks;
          output = forward fw (model self) tokens;
          val_loss = val_loss + Trainer_loss self output target masks;
          correct = correct + mask_sum (mul_bool (eq_tensor (argmax_last output) target) masks)
      in validate_loop fw self (tokens_count, val_loss, correct) rest)"

definition Trainer_validate ::
  "('m, 'o, 'g, 'sd) torch \<Rightarrow> ('m, 'o) Trainer \<Rightarrow> 'g \<Rightarrow> error + ((fval \<times> fval) \<times> 'g)" where
  "Trainer_validate fw self g =
     (let (batches, g') = DataLoader_iter (randperm fw) (val_loader (datasets self)) g;
          (tokens_count, val_loss, correct) = validate_loop fw self (0, 0, 0) batches
      in if batches = [] then Inl ZeroDivisionError
         else Inr ((tensor_div val_loss tokens_count, tensor_div (real correct) tokens_count), g'))"

text \<open>\<open>Trainer.train_epoch\<close> (lines 113--133); the progress bar and its message are display
  only.\<close>

fun train_loop ::
  "('m, 'o, 'g, 'sd) torch \<Rightarrow> ('m, 'o) Trainer \<Rightarrow> fval list \<Rightarrow> batch list
    \<Rightarrow> ('m, 'o) Trainer \<times> fval list" where
  "train_loop fw self losses [] = (self, losses)"
| "train_loop fw self losses ((tokens, target) # rest) =
     (let masks = gt0 tokens;
          output = forward fw (model self) tokens;
          batch_losses = Trainer_loss self output target masks;
          loss = tensor_div batch_losses (mask_sum masks);
          (m, opt) = backward_step fw (model self) (optimizer self) (loss_fn self) (tokens, target)
      in train_loop fw (self\<lparr>model := m, optimizer := opt\<rparr>) (losses @ [loss]) rest)"

definition Trainer_train_epoch ::
  "('m, 'o, 'g, 'sd) torch \<Rightarrow> ('m, 'o) Trainer \<Rightarrow> 'g \<Rightarrow> fval list \<times> ('m, 'o) Trainer \<times> 'g" where
  "Trainer_train_epoch fw self g =
     (let (batches, g') = DataLoader_iter (randperm fw) (train_loader (datasets self)) g;
          (self', losses) = train_loop fw self [] batches
      in (losses, self', g'))"

text \<open>The files the script writes and reads, by path.\<close>

datatype ('c, 'sd) pyfile = Blob 'sd | JsonArray "'c list" | Csv "string list" "row list"

text \<open>\<open>Trainer.save_model\<close> (lines 182--187); \<open>vocab\<close> is the module's vocabulary.\<close>

definition save_model ::
  "'c::linorder list \<Rightarrow> ('m, 'o, 'g, 'sd) torch \<Rightarrow> ('m, 'o) Trainer
    \<Rightarrow> (string \<rightharpoonup> ('c, 'sd) pyfile) \<Rightarrow> (string \<rightharpoonup> ('c, 'sd) pyfile)" where
  "save_model text fw self fs =
     fs(results_path self @ ''/model.pth'' \<mapsto> Blob (state_dict fw (model self)),
        results_path self @ ''/vocab.json'' \<mapsto> JsonArray (vocab text))"

text \<open>\<open>Trainer.train\<close> (lines 160--180): the loop over the epochs carries the trainer, the
  generator and \<open>all_losses\<close>.\<close>

fun epoch_loop ::
  "('m, 'o, 'g, 'sd) torch \<Rightarrow> ('m, 'o) Trainer \<times> 'g \<times> row list \<Rightarrow> int list
    \<Rightarrow> error + (('m, 'o) Trainer \<times> 'g \<times> row list)" where
  "epoch_loop fw (self, g, all_losses) [] = Inr (self, g, all_losses)"
| "epoch_loop fw (self, g, all_losses) (epoch # rest) =
     (let (train_losses, self1, g1) = Trainer_train_epoch fw self g
      in case Trainer_validate fw self1 g1 of
           Inl e \<Rightarrow> Inl e
         | Inr ((val_loss, accuracy), g2) \<Rightarrow>
             (let all_losses = all_losses @ map (\<lambda>train_loss. (Some train_loss, None, None)) train_losses;
                  all_losses = all_losses @ [(None, Some val_loss, Some accuracy)]
              in epoch_loop fw (self1, g2, all_losses) rest))"

definition Trainer_train ::
  "'c::linorder list \<Rightarrow> ('m, 'o, 'g, 'sd) torch \<Rightarrow> ('m, 'o) Trainer \<Rightarrow> int \<Rightarrow> 'g
    \<Rightarrow> (string \<rightharpoonup> ('c, 'sd) pyfile)
    \<Rightarrow> error + (('m, 'o) Trainer \<times> 'g \<times> (string \<rightharpoonup> ('c, 'sd) pyfile))" where
  "Trainer_train text fw self num_epoch g fs =
     (case Trainer_validate fw self g of
        Inl e \<Rightarrow> Inl e
      | Inr ((val_loss, accuracy), g0) \<Rightarrow>
          (case epoch_loop fw (self, g0, [(None, Some val_loss, Some accuracy)])
                  (range_up 0 num_epoch 1) of
             Inl e \<Rightarrow> Inl e
           | Inr (self1, g1, all_losses) \<Rightarrow>
               (let fs1 = save_model text fw self1 fs;
                    df = ([''train_loss'', ''val_loss'', ''accuracy''], all_losses);
                    self2 = self1\<lparr>train_df := Some df\<rparr>
                in Inr (self2, g1,
                     fs1(results_path self2 @ ''/train.csv'' \<mapsto> Csv (fst df) (snd df))))))"

text \<open>The metrics log in the specification's words: one validation row, then for each
  epoch one training row per batch followed by one validation row. \<open>run_epochs\<close> lists,
  epoch by epoch, the per-batch training losses and the validation result.\<close>

definition val_row :: "fval \<times> fval \<Rightarrow> row" where
  "val_row v = (None, Some (fst v), Some (snd v))"

definition train_row :: "fval \<Rightarrow> row" where
  "train_row l = (Some l, None, None)"

definition spec_metrics_log :: "fval \<times> fval \<Rightarrow> (fval list \<times> (fval \<times> fval)) list \<Rightarrow> row list" where
  "spec_metrics_log v0 epochs =
     val_row v0 # concat (map (\<lambda>(train_losses, v). map train_row train_losses @ [val_row v]) epochs)"

fun run_epochs ::
  "('m, 'o, 'g, 'sd) torch \<Rightarrow> ('m, 'o) Trainer \<Rightarrow> 'g \<Rightarrow> nat
    \<Rightarrow> error + ((fval list \<times> (fval \<times> fval)) list \<times> ('m, 'o) Trainer \<times> 'g)" where
  "run_epochs fw self g 0 = Inr ([], self, g)"
| "run_epochs fw self g (Suc n) =
     (let (train_losses, self1, g1) = Trainer_train_epoch fw self g
      in case Trainer_validate fw self1 g1 of
           Inl e \<Rightarrow> Inl e
         | Inr (v, g2) \<Rightarrow>
             (case run_epochs fw self1 g2 n of
                Inl e \<Rightarrow> Inl e
              | Inr (eps, self', g') \<Rightarrow> Inr ((train_losses, v) # eps, self', g')))"

section \<open>The sequence model \<open>LstmLM\<close> (lines 56--95)\<close>

text \<open>
  A tensor of any rank: a scalar, or the list of its sub-tensors along the first
  dimension. \<open>vec\<close> is the one-dimensional tensor of a list (\<open>torch.LongTensor([...])\<close>),
  \<open>dim0\<close> the size of the first dimension, \<open>tensor_last\<close> is \<open>t[-1]\<close>, \<open>tensor_rows\<close> lists the
  vectors along the last dimension in order (one per position), and \<open>along_last f\<close> applies
  \<open>f\<close> to each of these vectors (an operation with \<open>dim=-1\<close>).
\<close>

datatype 'a tensor = is_Sc: Sc (un_Sc: 'a) | Tn (un_Tn: "'a tensor list")

definition vec :: "'a list \<Rightarrow> 'a tensor" where
  "vec l = Tn (map Sc l)"

fun dim0 :: "'a tensor \<Rightarrow> nat" where
  "dim0 (Sc z) = 0"
| "dim0 (Tn ts) = length ts"

fun tensor_last :: "'a tensor \<Rightarrow> error + 'a tensor" where
  "tensor_last (Sc z) = Inl IndexError"
| "tensor_last (Tn ts) = (if ts = [] then Inl IndexError else Inr (last ts))"

fun tensor_rows :: "'a tensor \<Rightarrow> 'a list list" where
  "tensor_rows (Sc z) = [[z]]"
| "tensor_rows (Tn ts) =
     (if ts \<noteq> [] \<and> list_all is_Sc ts then [map un_Sc ts] else concat (map tensor_rows ts))"

fun along_last :: "('a list \<Rightarrow> 'b list) \<Rightarrow> 'a tensor \<Rightarrow> 'b tensor" where
  "along_last f (Sc z) = Sc (hd (f [z]))"
| "along_last f (Tn ts) =
     (if ts \<noteq> [] \<and> list_all is_Sc ts then vec (f (map un_Sc ts))
      else Tn (map (along_last f) ts))"

text \<open>The elements of a tensor, in order.\<close>

fun tensor_elems :: "'a tensor \<Rightarrow> 'a list" where
  "tensor_elems (Sc z) = [z]"
| "tensor_elems (Tn ts) = concat (map tensor_elems ts)"

definition softmax_vec :: "real list \<Rightarrow> real list" where
  "softmax_vec v = map (\<lambda>z. exp z / (\<Sum>y\<leftarrow>v. exp y)) v"

definition log_softmax_vec :: "real list \<Rightarrow> real list" where
  "log_softmax_vec v = map (\<lambda>z. z - ln (\<Sum>y\<leftarrow>v. exp y)) v"

text \<open>
  The three layers are the framework's: each is a function fixed by the layer's weights,
  and a field of the model. The recurrent layer takes the carried \<open>(hidden, cell)\<close> state,
  \<open>None\<close> for the framework's initial state, and returns its outputs and the new state.
  \<open>nn\<close> holds the framework's constructors of the layers, the loading of a state
  dictionary into a model, and the sampling of one index from a vector of
  probabilities with the framework's generator (\<open>'g\<close> is the generator's state): \<open>None\<close>
  when the framework refuses the vector, otherwise the index drawn and the generator's
  next state.
\<close>

type_synonym lstm_state = "real tensor \<times> real tensor"

record LstmLM =
  num_classes :: nat
  num_embeddings :: nat
  embedding_dim :: nat
  hidden_size :: nat
  embedding :: "nat tensor \<Rightarrow> real tensor"
  lstm :: "real tensor \<Rightarrow> lstm_state option \<Rightarrow> real tensor \<times> lstm_state"
  fc :: "real tensor \<Rightarrow> real tensor"

record ('g, 'sd) nn =
  Embedding :: "nat \<Rightarrow> nat \<Rightarrow> nat tensor \<Rightarrow> real tensor"
  LSTM :: "nat \<Rightarrow> nat \<Rightarrow> real tensor \<Rightarrow> lstm_state option \<Rightarrow> real tensor \<times> lstm_state"
  Linear :: "nat \<Rightarrow> nat \<Rightarrow> real tensor \<Rightarrow> real tensor"
  load_state_dict :: "LstmLM \<Rightarrow> 'sd \<Rightarrow> error + LstmLM"
  multinomial :: "real tensor \<Rightarrow> 'g \<Rightarrow> (nat \<times> 'g) option"

definition LstmLM_init :: "('g, 'sd) nn \<Rightarrow> nat \<Rightarrow> nat \<Rightarrow> nat \<Rightarrow> nat \<Rightarrow> LstmLM" where
  "LstmLM_init fw num_classes' num_embeddings' embedding_dim' hidden_size' =
     \<lparr>num_classes = num_classes', num_embeddings = num_embeddings',
      embedding_dim = embedding_dim', hidden_size = hidden_size',
      embedding = Embedding fw num_embeddings' embedding_dim',
      lstm = LSTM fw embedding_dim' hidden_size',
      fc = Linear fw hidden_size' num_classes'\<rparr>"

text \<open>The four sizes of a model, which fix the shapes of its parameters.\<close>

definition LstmLM_sizes :: "LstmLM \<Rightarrow> nat \<times> nat \<times> nat \<times> nat" where
  "LstmLM_sizes m = (num_classes m, num_embeddings m, embedding_dim m, hidden_size m)"

definition LstmLM_forward :: "LstmLM \<Rightarrow> nat tensor \<Rightarrow> real tensor" where
  "LstmLM_forward self x =
     (let o1 = embedding self x;
          o2 = lstm self o1 None;
          o3 = fc self (fst o2);
          o4 = along_last log_softmax_vec o3
      in o4)"

definition LstmLM_predict ::
  "LstmLM \<Rightarrow> nat tensor \<Rightarrow> lstm_state option \<Rightarrow> real \<Rightarrow> real tensor \<times> lstm_state" where
  "LstmLM_predict self x states temperature =
     (let o1 = embedding self x;
          o2 = lstm self o1 states;
          o3 = fc self (fst o2);
          o3 = (if temperature \<noteq> 1 then map_tensor (\<lambda>z. z / temperature) o3 else o3);
          o4 = along_last softmax_vec o3
      in (o4, snd o2))"

section \<open>The sampler \<open>Predictor\<close> (lines 221--255)\<close>

text \<open>\<open>Predictor.__init__\<close>: the vocabulary read from \<open>vocab.json\<close> is a local of the
  constructor, used for the two sizes of the fresh model; the object keeps the model only
  (its attribute \<open>model\<close>).\<close>

record Predictor =
  predictor_model :: LstmLM

definition Predictor_init ::
  "('g, 'sd) nn \<Rightarrow> (string \<rightharpoonup> ('c, 'sd) pyfile) \<Rightarrow> string \<Rightarrow> error + Predictor" where
  "Predictor_init fw fs model_dir =
     (case fs (model_dir @ ''/vocab.json'') of
        None \<Rightarrow> Inl FileNotFoundError
      | Some (JsonArray vocab') \<Rightarrow>
          (let m = LstmLM_init fw (length vocab') (length vocab') 50 50
           in case fs (model_dir @ ''/model.pth'') of
                None \<Rightarrow> Inl FileNotFoundError
              | Some (Blob sd) \<Rightarrow>
                  (case load_state_dict fw m sd of
                     Inl e \<Rightarrow> Inl e
                   | Inr m' \<Rightarrow> Inr \<lparr>predictor_model = m'\<rparr>)
              | Some _ \<Rightarrow> Inl RuntimeError)
      | Some _ \<Rightarrow> Inl ValueError)"

text \<open>
  \<open>Predictor.predict\<close>: \<open>char2idx\<close> and \<open>vocab\<close> are the module's, built from the corpus
  \<open>corpus\<close> the module read. The loop carries \<open>tokens\<close>, \<open>states\<close>, \<open>generated\<close> and the
  generator.

  The layers are total functions here and the numbers are reals, so what the framework
  refuses is written where the loop's body meets it, in the order of the calls:
  the embedding of line 89 raises \<open>IndexError\<close> for a token that is not below
  \<open>num_embeddings\<close>; the recurrent layer of line 90 raises \<open>RuntimeError\<close> for a sequence of
  no token; \<open>output[-1]\<close> raises \<open>IndexError\<close> on an output with no row; at temperature \<open>0\<close>
  every quotient of line 93 is \<open>inf\<close>, \<open>-inf\<close> or \<open>nan\<close>, the softmax of such a row is \<open>nan\<close>
  throughout, and \<open>multinomial\<close> at line 248 raises \<open>RuntimeError\<close> on it, as it does for
  any vector it refuses; \<open>vocab[predicted_idx]\<close> raises \<open>IndexError\<close> for an index that is
  not in the module's vocabulary.
\<close>

definition predict_step ::
  "'c::linorder list \<Rightarrow> ('g, 'sd) nn \<Rightarrow> Predictor \<Rightarrow> real
    \<Rightarrow> nat tensor \<times> lstm_state option \<times> 'c list \<times> 'g
    \<Rightarrow> error + (nat tensor \<times> lstm_state option \<times> 'c list \<times> 'g)" where
  "predict_step corpus fw self temperature s =
     (case s of (tokens, states, generated, g) \<Rightarrow>
        (if \<not> list_all (\<lambda>t. t < num_embeddings (predictor_model self)) (tensor_elems tokens)
         then Inl IndexError
         else if dim0 tokens = 0 then Inl RuntimeError
         else
           (let (output, states') = LstmLM_predict (predictor_model self) tokens states temperature
            in case tensor_last output of
                 Inl e \<Rightarrow> Inl e
               | Inr probs \<Rightarrow>
                   (if temperature = 0 then Inl RuntimeError
                    else
                      (case multinomial fw probs g of
                         None \<Rightarrow> Inl RuntimeError
                       | Some (predicted_idx, g') \<Rightarrow>
                           (case list_getitem (vocab corpus) predicted_idx of
                              Inl e \<Rightarrow> Inl e
                            | Inr predicted_char \<Rightarrow>
                                Inr (vec [predicted_idx], Some states',
                                     generated @ [predicted_char], g')))))))"

fun predict_loop ::
  "'c::linorder list \<Rightarrow> ('g, 'sd) nn \<Rightarrow> Predictor \<Rightarrow> real
    \<Rightarrow> nat tensor \<times> lstm_state option \<times> 'c list \<times> 'g \<Rightarrow> int list
    \<Rightarrow> error + (nat tensor \<times> lstm_state option \<times> 'c list \<times> 'g)" where
  "predict_loop corpus fw self temperature s [] = Inr s"
| "predict_loop corpus fw self temperature s (i # rest) =
     (case predict_step corpus fw self temperature s of
        Inl e \<Rightarrow> Inl e
      | Inr s' \<Rightarrow> predict_loop corpus fw self temperature s' rest)"

definition Predictor_predict ::
  "'c::linorder list \<Rightarrow> ('g, 'sd) nn \<Rightarrow> Predictor \<Rightarrow> 'c list \<Rightarrow> int \<Rightarrow> real \<Rightarrow> 'g
    \<Rightarrow> error + ('c list \<times> 'g)" where
  "Predictor_predict corpus fw self text max_length temperature g =
     (case encode (char2idx corpus) text of
        Inl e \<Rightarrow> Inl e
      | Inr idxs \<Rightarrow>
          (case predict_loop corpus fw self temperature (vec idxs, None, [], g)
                  (range_up 0 max_length 1) of
             Inl e \<Rightarrow> Inl e
           | Inr (tokens, states, generated, g') \<Rightarrow> Inr (generated, g')))"

text \<open>
  The recurrent state the loop carries after the model has been called on the token
  sequences \<open>ls\<close>, the latest first: \<open>None\<close> at the start of a call, and then what the
  recurrent layer returned for the latest sequence and the state carried before it.
\<close>

fun carried :: "LstmLM \<Rightarrow> nat list list \<Rightarrow> lstm_state option" where
  "carried m [] = None"
| "carried m (l # ls) = Some (snd (lstm m (embedding m (vec l)) (carried m ls)))"

section \<open>Small instances for the examples\<close>

text \<open>
  A framework instance with fixed scores (three classes, the identity as the random
  order, no learning), a trainer over it, and two pairs of loaders: one with tokens of
  every kind, and the one \<open>Datasets(1, max_length=1)\<close> builds from a corpus of twenty
  \<open>a\<close>, whose only token index is \<open>0\<close>.
\<close>

definition toy_torch :: "(unit, unit, unit, unit) torch" where
  "toy_torch =
     \<lparr>forward = (\<lambda>m a. map (map (\<lambda>t. [- 1, if t = 1 then 0 else - 2, - 3])) a),
      backward_step = (\<lambda>m opt lf b. (m, opt)),
      randperm = (\<lambda>n g. ([0..<n], g)),
      state_dict = (\<lambda>m. ())\<rparr>"

definition toy_trainer :: "Datasets \<Rightarrow> (unit, unit) Trainer" where
  "toy_trainer d =
     \<lparr>datasets = d, model = (), optimizer = (), loss_fn = NLLLoss_none,
      results_path = ''results'', train_df = None\<rparr>"

definition toy_datasets :: Datasets where
  "toy_datasets =
     \<lparr>train_loader = DataLoader \<lparr>xs = [[0, 1], [2, 0], [1, 2]], ys = [[1, 2], [0, 1], [2, 0]]\<rparr> 1,
      val_loader = DataLoader \<lparr>xs = [[0, 1], [2, 0]], ys = [[1, 2], [0, 1]]\<rparr> 2\<rparr>"

definition zero_datasets :: Datasets where
  "zero_datasets =
     \<lparr>train_loader = DataLoader \<lparr>xs = replicate 11 [0], ys = replicate 11 [0]\<rparr> 1,
      val_loader = DataLoader \<lparr>xs = replicate 3 [0], ys = replicate 3 [0]\<rparr> 2\<rparr>"

text \<open>
  A framework instance for the sampler: the embedding of a token \<open>t\<close> is the row \<open>[t]\<close>, the
  recurrent layer returns its input, the linear layer gives every class the sum of the row,
  loading a state dictionary keeps the model, and the sampler goes round the indices of
  the vector it is given (its generator is a counter) and refuses a vector with no entry.
  \<open>toy_predictor\<close> is a predictor with two classes; \<open>toy_fs\<close> holds a model directory whose
  vocabulary is \<open>abc\<close>.
\<close>

fun toy_embed :: "nat tensor \<Rightarrow> real tensor" where
  "toy_embed (Sc t) = vec [real t]"
| "toy_embed (Tn ts) = Tn (map toy_embed ts)"

definition toy_nn :: "(nat, unit) nn" where
  "toy_nn =
     \<lparr>Embedding = (\<lambda>n d. toy_embed),
      LSTM = (\<lambda>d h x st. (x, (x, x))),
      Linear = (\<lambda>h c. along_last (\<lambda>v. replicate c (sum_list v))),
      load_state_dict = (\<lambda>m sd. Inr m),
      multinomial = (\<lambda>p g. if dim0 p = 0 then None else Some (g mod dim0 p, Suc g))\<rparr>"

definition toy_predictor :: Predictor where
  "toy_predictor = \<lparr>predictor_model = LstmLM_init toy_nn 2 2 50 50\<rparr>"

definition toy_fs :: "string \<rightharpoonup> (char, unit) pyfile" where
  "toy_fs = [''results/vocab.json'' \<mapsto> JsonArray ''abc'', ''results/model.pth'' \<mapsto> Blob ()]"

text \<open>
  A framework instance for persistence, with the layers and the sampler of \<open>toy_nn\<close>: the
  state dictionary of a model is the model, and loading is strict, as the framework's
  \<open>load_state_dict\<close> is: a state dictionary whose sizes are not the receiving model's is
  refused with \<open>RuntimeError\<close>, and otherwise the receiving model computes with the saved
  layers. The scores of a batch are those of \<open>toy_torch\<close>; \<open>strict_trainer m\<close> is a trainer
  that holds the model \<open>m\<close>.
\<close>

definition strict_nn :: "(nat, LstmLM) nn" where
  "strict_nn =
     \<lparr>Embedding = (\<lambda>n d. toy_embed),
      LSTM = (\<lambda>d h x st. (x, (x, x))),
      Linear = (\<lambda>h c. along_last (\<lambda>v. replicate c (sum_list v))),
      load_state_dict =
        (\<lambda>m sd. if LstmLM_sizes m = LstmLM_sizes sd
                 then Inr (m\<lparr>embedding := embedding sd, lstm := lstm sd, fc := fc sd\<rparr>)
                 else Inl RuntimeError),
      multinomial = (\<lambda>p g. if dim0 p = 0 then None else Some (g mod dim0 p, Suc g))\<rparr>"

definition strict_torch :: "(LstmLM, unit, unit, LstmLM) torch" where
  "strict_torch =
     \<lparr>forward = (\<lambda>m a. map (map (\<lambda>t. [- 1, if t = 1 then 0 else - 2, - 3])) a),
      backward_step = (\<lambda>m opt lf b. (m, opt)),
      randperm = (\<lambda>n g. ([0..<n], g)),
      state_dict = (\<lambda>m. m)\<rparr>"

definition strict_trainer :: "LstmLM \<Rightarrow> (LstmLM, unit) Trainer" where
  "strict_trainer m =
     \<lparr>datasets = toy_datasets, model = m, optimizer = (), loss_fn = NLLLoss_none,
      results_path = ''results'', train_df = None\<rparr>"

section \<open>Properties of the Python primitives and of the vocabulary\<close>

lemma range_up_map:
  "0 < step \<Longrightarrow>
   range_up i stop step = map (\<lambda>k. i + int k * step) [0..<nat ((stop - i + step - 1) div step)]"
proof (induction i stop step rule: range_up.induct)
  case (1 i stop step)
  show ?case
  proof (cases "i < stop")
    case True
    let ?n = "nat ((stop - (i + step) + step - 1) div step)"
    have ih: "range_up (i + step) stop step = map (\<lambda>k. i + step + int k * step) [0..<?n]"
      using 1 True by simp
    have e: "stop - i + step - 1 = (stop - i - 1) + step" by simp
    have "(stop - i + step - 1) div step = (stop - i - 1) div step + 1"
      unfolding e using 1(2) by (intro div_add_self2) simp
    moreover have "0 \<le> (stop - i - 1) div step"
      using True 1(2) by (simp add: pos_imp_zdiv_nonneg_iff)
    ultimately have n: "nat ((stop - i + step - 1) div step) = Suc ?n"
      by (simp add: algebra_simps nat_add_distrib)
    have "range_up i stop step = i # range_up (i + step) stop step"
      using True 1(2) by (simp add: range_up.simps)
    also have "\<dots> = map (\<lambda>k. i + int k * step) [0..<Suc ?n]"
      unfolding ih by (simp add: upt_conv_Cons map_Suc_upt[symmetric] algebra_simps del: upt_Suc)
    finally show ?thesis unfolding n .
  next
    case False
    have "(stop - i + step - 1) div step \<le> (step - 1) div step"
      using False 1(2) by (intro zdiv_mono1) auto
    also have "\<dots> = 0" using 1(2) by simp
    finally show ?thesis using False by (simp add: range_up.simps)
  qed
qed

lemma range_down_cases:
  "step < 0 \<Longrightarrow> 0 \<le> n \<Longrightarrow>
   range_down 0 (n - step - 2) step = (if n = 0 \<and> step = - 1 then [0] else [])"
  by (subst range_up.simps range_down.simps, subst range_down.simps) auto

lemma dict_of_fold:
  "fold (\<lambda>(k, v) m. m(k \<mapsto> v)) kvs m0 = m0 ++ map_of (rev kvs)"
  by (induction kvs arbitrary: m0) (auto simp: map_add_def fun_eq_iff split: option.splits)

lemma dict_of_map_of: "dict_of kvs = map_of (rev kvs)"
  by (simp add: dict_of_def dict_of_fold)

lemma dict_of_distinct:
  assumes "distinct (map fst kvs)"
  shows "dict_of kvs k = Some v \<longleftrightarrow> (k, v) \<in> set kvs"
proof -
  have "distinct (map fst (rev kvs))" using assms by (simp add: rev_map[symmetric])
  then show ?thesis by (simp add: dict_of_map_of)
qed

lemma vocab_props:
  "sorted (vocab text)" "distinct (vocab text)" "set (vocab text) = set (train_set text)"
  by (simp_all add: vocab_def)

lemma char2idx_pairs:
  "set (map (\<lambda>(idx, char). (char, idx)) (enumerate 0 v)) = {(v ! i, i) | i. i < length v}"
proof -
  have "(\<lambda>(idx, char). (char, idx)) ` set (zip [0..<length v] v) = {(v ! i, i) | i. i < length v}"
    by (force simp: in_set_zip image_iff)
  then show ?thesis by (simp add: enumerate_eq_zip)
qed

lemma char2idx_keys:
  "map fst (map (\<lambda>(idx, char). (char, idx)) (enumerate 0 v)) = v"
  by (simp add: enumerate_eq_zip comp_def case_prod_unfold) 

lemma char2idx_Some:
  "char2idx text c = Some i \<longleftrightarrow> i < length (vocab text) \<and> vocab text ! i = c"
proof -
  let ?kvs = "map (\<lambda>(idx, char). (char, idx)) (enumerate 0 (vocab text))"
  have "distinct (map fst ?kvs)" by (simp only: char2idx_keys vocab_props)
  then have "dict_of ?kvs c = Some i \<longleftrightarrow> (c, i) \<in> set ?kvs" by (rule dict_of_distinct)
  then show ?thesis unfolding char2idx_def by (auto simp only: char2idx_pairs)
qed

lemma dom_char2idx: "dom (char2idx text) = set (train_set text)"
  by (auto simp: dom_def char2idx_Some in_set_conv_nth vocab_props(3)[symmetric])

lemma ran_char2idx: "ran (char2idx text) = {0..<vocab_size text}"
  by (auto simp: ran_def char2idx_Some vocab_size_def)

lemma slice_to_last_butlast: "slice_to_last l = butlast l"
proof -
  have "nat (max 0 (int (length l) - 1)) = length l - 1" by (cases l) (simp_all add: max_def)
  then show ?thesis
    by (simp add: slice_to_last_def py_slice_def slice_index_def butlast_conv_take)
qed

lemma slice_from_1_tl: "slice_from_1 l = tl l"
  by (cases l) (simp_all add: slice_from_1_def py_slice_def slice_index_def)

lemma encode_Inr_iff: "encode d cs = Inr r \<longleftrightarrow> map d cs = map Some r"
proof (induction cs arbitrary: r)
  case Nil
  then show ?case by auto
next
  case (Cons c cs)
  show ?case
  proof (cases r)
    case Nil
    then show ?thesis by (auto simp: getitem_def split: option.splits sum.splits)
  next
    case (Cons i r')
    then show ?thesis using Cons.IH[of r']
      by (auto simp: getitem_def split: option.splits sum.splits)
  qed
qed

lemma encode_Inl: "encode d cs = Inl e \<Longrightarrow> e = KeyError \<and> (\<exists>c\<in>set cs. d c = None)"
  by (induction cs) (auto simp: getitem_def split: option.splits sum.splits)

lemma encode_total: "set cs \<subseteq> dom d \<Longrightarrow> \<exists>r. encode d cs = Inr r"
  by (cases "encode d cs") (auto dest!: encode_Inl)

lemma encode_KeyError_iff: "encode d cs = Inl KeyError \<longleftrightarrow> (\<exists>c\<in>set cs. d c = None)"
proof
  assume "encode d cs = Inl KeyError" then show "\<exists>c\<in>set cs. d c = None"
    by (auto dest: encode_Inl)
next
  assume a: "\<exists>c\<in>set cs. d c = None"
  show "encode d cs = Inl KeyError"
  proof (cases "encode d cs")
    case (Inl e) then show ?thesis by (auto dest: encode_Inl)
  next
    case (Inr r)
    then have "map d cs = map Some r" by (simp add: encode_Inr_iff)
    then have "\<forall>c\<in>set cs. d c \<noteq> None"
      by (metis (no_types, lifting) imageE image_eqI list.set_map option.distinct(1))
    with a show ?thesis by blast
  qed
qed

text \<open>The loop of \<open>LMDataset.__init__\<close>: what it has appended when it returns.\<close>

lemma windows_Inr:
  "windows d dataset L ax ay starts = Inr (ax', ay') \<Longrightarrow>
   (\<exists>inds. length inds = length starts \<and>
      (\<forall>k < length starts. encode d (py_slice dataset (starts ! k) (starts ! k + L + 1)) = Inr (inds ! k)) \<and>
      ax' = ax @ map slice_to_last inds \<and> ay' = ay @ map slice_from_1 inds)"
proof (induction starts arbitrary: ax ay)
  case Nil
  then show ?case by simp
next
  case (Cons i rest)
  from Cons.prems obtain ind where e: "encode d (py_slice dataset i (i + L + 1)) = Inr ind"
    and w: "windows d dataset L (ax @ [slice_to_last ind]) (ay @ [slice_from_1 ind]) rest = Inr (ax', ay')"
    by (auto split: sum.splits)
  from Cons.IH[OF w] obtain inds where i: "length inds = length rest"
    "\<forall>k < length rest. encode d (py_slice dataset (rest ! k) (rest ! k + L + 1)) = Inr (inds ! k)"
    "ax' = (ax @ [slice_to_last ind]) @ map slice_to_last inds"
    "ay' = (ay @ [slice_from_1 ind]) @ map slice_from_1 inds" by blast
  show ?case
  proof (intro exI[of _ "ind # inds"] conjI allI impI)
    fix k assume "k < length (i # rest)"
    then show "encode d (py_slice dataset ((i # rest) ! k) ((i # rest) ! k + L + 1)) = Inr ((ind # inds) ! k)"
      using e i(2) by (cases k) auto
  qed (use i in auto)
qed

lemma windows_total:
  "\<forall>i\<in>set starts. \<exists>r. encode d (py_slice dataset i (i + L + 1)) = Inr r \<Longrightarrow>
   \<exists>res. windows d dataset L ax ay starts = Inr res"
  by (induction starts arbitrary: ax ay) auto

lemma windows_Inl:
  "windows d dataset L ax ay starts = Inl e \<Longrightarrow> e = KeyError"
  by (induction starts arbitrary: ax ay) (auto split: sum.splits dest: encode_Inl)

section \<open>Properties of the windowed dataset\<close>

lemma LongTensor2_Inr: "LongTensor2 rows = Inr t \<Longrightarrow> t = rows"
  by (auto simp: LongTensor2_def split: if_splits)

lemma LongTensor2_same_length:
  "\<forall>r\<in>set rows. length r = n \<Longrightarrow> LongTensor2 rows = Inr rows"
  by (cases rows) (auto simp: LongTensor2_def list_all_iff)

text \<open>What a successful construction looks like, for any window length.\<close>

lemma LMDataset_init_Inr:
  assumes "LMDataset_init d dataset L = Inr ds"
  obtains starts inds where
    "py_range 0 (int (length dataset) - L - 2) L = Inr starts"
    "length inds = length starts"
    "\<forall>k < length starts. encode d (py_slice dataset (starts ! k) (starts ! k + L + 1)) = Inr (inds ! k)"
    "xs ds = map slice_to_last inds" "ys ds = map slice_from_1 inds"
proof -
  from assms obtain starts ax ay tx ty where
    r: "py_range 0 (int (length dataset) - L - 2) L = Inr starts"
    and w: "windows d dataset L [] [] starts = Inr (ax, ay)"
    and t: "LongTensor2 ax = Inr tx" "LongTensor2 ay = Inr ty" and ds: "ds = \<lparr>xs = tx, ys = ty\<rparr>"
    by (auto simp: LMDataset_init_def split: sum.splits prod.splits)
  from windows_Inr[OF w] obtain inds where i: "length inds = length starts"
    "\<forall>k < length starts. encode d (py_slice dataset (starts ! k) (starts ! k + L + 1)) = Inr (inds ! k)"
    "ax = map slice_to_last inds" "ay = map slice_from_1 inds" by auto
  show thesis
    using that[OF r i(1,2)] t ds i(3,4) by (auto dest!: LongTensor2_Inr)
qed

lemma starts_pos:
  assumes "1 \<le> L"
  shows "py_range 0 (int N - L - 2) L = Inr (map (\<lambda>k. int k * L) [0..<nat ((int N - 3) div L)])"
proof -
  have "int N - L - 2 - 0 + L - 1 = int N - 3" by simp
  then show ?thesis using assms by (simp add: py_range_def range_up_map)
qed

lemma count_formula:
  assumes "1 \<le> L"
  shows "int (nat ((int N - 3) div L)) = (if L + 3 \<le> int N then (int N - L - 3) div L + 1 else 0)"
proof (cases "L + 3 \<le> int N")
  case True
  have "int N - 3 = (int N - L - 3) + L" by simp
  then have "(int N - 3) div L = (int N - L - 3) div L + 1"
    using assms by (simp only: div_add_self2)
  moreover have "0 \<le> (int N - L - 3) div L" using True assms by (simp add: pos_imp_zdiv_nonneg_iff)
  ultimately show ?thesis using True by simp
next
  case False
  have "(int N - 3) div L \<le> (L - 1) div L" using False assms by (intro zdiv_mono1) auto
  also have "\<dots> = 0" using assms by simp
  finally show ?thesis using False by simp
qed

lemma int_le_div_iff:
  fixes a b c :: int
  assumes "0 < c"
  shows "a \<le> b div c \<longleftrightarrow> a * c \<le> b"
proof
  assume "a \<le> b div c"
  then have "a * c \<le> (b div c) * c" using assms by (simp add: mult_right_mono)
  also have "\<dots> \<le> b"
  proof -
    have "b = (b div c) * c + b mod c" by simp
    moreover have "0 \<le> b mod c" using assms by simp
    ultimately show ?thesis by linarith
  qed
  finally show "a * c \<le> b" .
next
  assume "a * c \<le> b"
  then have "(a * c) div c \<le> b div c" using assms by (intro zdiv_mono1) auto
  then show "a \<le> b div c" using assms by simp
qed

lemma count_index:
  assumes "1 \<le> L"
  shows "k < nat ((int N - 3) div L) \<longleftrightarrow> int k * L + L + 2 < int N"
proof -
  have "k < nat ((int N - 3) div L) \<longleftrightarrow> int k + 1 \<le> (int N - 3) div L" by auto
  also have "\<dots> \<longleftrightarrow> (int k + 1) * L \<le> int N - 3"
    using assms by (simp add: int_le_div_iff)
  also have "\<dots> \<longleftrightarrow> int k * L + L + 2 < int N" by (simp add: distrib_right) linarith
  finally show ?thesis .
qed

lemma py_slice_nat:
  "a \<le> b \<Longrightarrow> b \<le> length l \<Longrightarrow> py_slice l (int a) (int b) = take (b - a) (drop a l)"
  by (simp add: py_slice_def slice_index_def Let_def min_def)

lemma window_nat:
  assumes k: "k * l + l + 2 < length dataset"
    and e: "encode d (py_slice dataset (int (k * l)) (int (k * l + l + 1))) = Inr ind"
  shows "length ind = l + 1"
    and "map Some (slice_to_last ind) = map d (py_slice dataset (int (k * l)) (int (k * l + l)))"
    and "map Some (slice_from_1 ind) = map d (py_slice dataset (int (k * l + 1)) (int (k * l + l + 1)))"
proof -
  let ?i = "k * l"
  have w: "py_slice dataset (int ?i) (int (?i + l + 1)) = take (l + 1) (drop ?i dataset)"
    using k by (subst py_slice_nat) auto
  have m: "map d (take (l + 1) (drop ?i dataset)) = map Some ind"
    using e unfolding w by (simp add: encode_Inr_iff)
  have len: "l + 1 \<le> length (drop ?i dataset)" using k by simp
  from m have "length ind = length (take (l + 1) (drop ?i dataset))" by (metis length_map)
  then show "length ind = l + 1" using len by simp
  have "map Some (butlast ind) = butlast (map Some ind)" by (simp add: map_butlast)
  also have "\<dots> = map d (butlast (take (l + 1) (drop ?i dataset)))"
    unfolding m[symmetric] by (simp add: map_butlast)
  also have "butlast (take (l + 1) (drop ?i dataset)) = take l (drop ?i dataset)"
    using len by (simp add: butlast_take)
  also have "take l (drop ?i dataset) = py_slice dataset (int ?i) (int (?i + l))"
    using k by (subst py_slice_nat) auto
  finally show "map Some (slice_to_last ind) = map d (py_slice dataset (int ?i) (int (?i + l)))"
    by (simp add: slice_to_last_butlast)
  have "map Some (tl ind) = tl (map Some ind)" by (simp add: map_tl)
  also have "\<dots> = map d (tl (take (l + 1) (drop ?i dataset)))"
    unfolding m[symmetric] by (simp add: map_tl)
  also have "tl (take (l + 1) (drop ?i dataset)) = take l (drop (Suc ?i) dataset)"
    by (simp add: tl_take tl_drop drop_Suc)
  also have "take l (drop (Suc ?i) dataset) = py_slice dataset (int (?i + 1)) (int (?i + l + 1))"
    using k by (subst py_slice_nat) auto
  finally show "map Some (slice_from_1 ind) = map d (py_slice dataset (int (?i + 1)) (int (?i + l + 1)))"
    by (simp add: slice_from_1_tl)
qed

lemma set_py_slice: "set (py_slice l a b) \<subseteq> set l"
  unfolding py_slice_def Let_def
  by (meson order_trans set_take_subset set_drop_subset)

lemma LMDataset_pos:
  assumes "LMDataset_init d dataset (int l) = Inr ds" and "1 \<le> l"
  obtains inds where
    "length inds = nat ((int (length dataset) - 3) div int l)"
    "\<forall>k < length inds. k * l + l + 2 < length dataset \<and>
        encode d (py_slice dataset (int (k * l)) (int (k * l + l + 1))) = Inr (inds ! k)"
    "xs ds = map slice_to_last inds" "ys ds = map slice_from_1 inds"
proof -
  let ?n = "nat ((int (length dataset) - 3) div int l)"
  from LMDataset_init_Inr[OF assms(1)] obtain starts inds where
    r: "py_range 0 (int (length dataset) - int l - 2) (int l) = Inr starts"
    and i: "length inds = length starts"
      "\<forall>k < length starts. encode d (py_slice dataset (starts ! k) (starts ! k + int l + 1)) = Inr (inds ! k)"
      "xs ds = map slice_to_last inds" "ys ds = map slice_from_1 inds" by blast
  have s: "starts = map (\<lambda>k. int k * int l) [0..<?n]"
    using r starts_pos[of "int l" "length dataset"] assms(2) by simp
  have "\<forall>k < length inds. k * l + l + 2 < length dataset \<and>
        encode d (py_slice dataset (int (k * l)) (int (k * l + l + 1))) = Inr (inds ! k)"
  proof (intro allI impI conjI)
    fix k assume k: "k < length inds"
    then have kn: "k < ?n" using i(1) s by simp
    then have "int k * int l + int l + 2 < int (length dataset)"
      using count_index[of "int l" k "length dataset"] assms(2) by simp
    then show "k * l + l + 2 < length dataset" by (metis of_nat_add of_nat_less_iff of_nat_mult of_nat_numeral)
    have "starts ! k = int (k * l)" using kn s by simp
    moreover have "int (k * l) + int l + 1 = int (k * l + l + 1)" by simp
    ultimately show "encode d (py_slice dataset (int (k * l)) (int (k * l + l + 1))) = Inr (inds ! k)"
      using i(2) k i(1) by metis
  qed
  moreover have "length inds = ?n" using i(1) s by simp
  ultimately show thesis using that i(3,4) by blast
qed

lemma LMDataset_total:
  assumes "1 \<le> l" and sub: "set dataset \<subseteq> dom d"
  shows "\<exists>ds. LMDataset_init d dataset (int l) = Inr ds"
proof -
  let ?n = "nat ((int (length dataset) - 3) div int l)"
  let ?starts = "map (\<lambda>k. int k * int l) [0..<?n]"
  have r: "py_range 0 (int (length dataset) - int l - 2) (int l) = Inr ?starts"
    using starts_pos[of "int l" "length dataset"] assms(1) by simp
  have "\<forall>i\<in>set ?starts. \<exists>r. encode d (py_slice dataset i (i + int l + 1)) = Inr r"
    using sub set_py_slice[of dataset] by (intro ballI encode_total) blast
  from windows_total[OF this] obtain ax ay where
    w: "windows d dataset (int l) [] [] ?starts = Inr (ax, ay)" by (metis surj_pair)
  from windows_Inr[OF w] obtain inds where i: "length inds = length ?starts"
    "\<forall>k < length ?starts. encode d (py_slice dataset (?starts ! k) (?starts ! k + int l + 1)) = Inr (inds ! k)"
    "ax = map slice_to_last inds" "ay = map slice_from_1 inds" by auto
  have len: "length ind = l + 1" if "ind \<in> set inds" for ind
  proof -
    from that obtain k where k: "k < length inds" "ind = inds ! k" by (auto simp: in_set_conv_nth)
    then have kn: "k < ?n" using i(1) by simp
    then have "int k * int l + int l + 2 < int (length dataset)"
      using count_index[of "int l" k "length dataset"] assms(1) by simp
    then have b: "k * l + l + 2 < length dataset"
      by (metis of_nat_add of_nat_less_iff of_nat_mult of_nat_numeral)
    have "?starts ! k = int (k * l)" using kn by simp
    moreover have "int (k * l) + int l + 1 = int (k * l + l + 1)" by simp
    ultimately have "encode d (py_slice dataset (int (k * l)) (int (k * l + l + 1))) = Inr ind"
      using i(2) k i(1) by (metis length_map)
    from window_nat(1)[OF b this] show ?thesis .
  qed
  have "\<forall>r\<in>set ax. length r = l" using len by (auto simp: i(3) slice_to_last_butlast)
  then have tx: "LongTensor2 ax = Inr ax" by (rule LongTensor2_same_length)
  have "\<forall>r\<in>set ay. length r = l" using len by (auto simp: i(4) slice_from_1_tl)
  then have ty: "LongTensor2 ay = Inr ay" by (rule LongTensor2_same_length)
  show ?thesis by (simp add: LMDataset_init_def r w tx ty)
qed

lemma LMDataset_len_pos:
  assumes "LMDataset_init d dataset (int l) = Inr ds" and "1 \<le> l"
  shows "LMDataset_len ds = nat ((int (length dataset) - 3) div int l)"
  using LMDataset_pos[OF assms] by (metis LMDataset_len_def length_map)

text \<open>
  Claim C1, as the code has it. For a window length \<open>L \<ge> 1\<close> and a split of length \<open>N\<close>:
  the constructor returns whenever every character of the split is in the mapping, and
  whenever it returns the number of examples is \<open>floor((N - L - 3) / L) + 1\<close> when
  \<open>N \<ge> L + 3\<close> and zero when \<open>N < L + 3\<close>; equivalently, the start index \<open>k * L\<close> has an
  example exactly when \<open>k * L + L + 2 < N\<close> (the stop of \<open>range\<close> is exclusive).
\<close>

theorem LMDataset_count:
  assumes "1 \<le> L"
  shows "(set dataset \<subseteq> dom d \<longrightarrow> (\<exists>ds. LMDataset_init d dataset L = Inr ds)) \<and>
         (\<forall>ds. LMDataset_init d dataset L = Inr ds \<longrightarrow>
            int (LMDataset_len ds) =
              (if L + 3 \<le> int (length dataset) then (int (length dataset) - L - 3) div L + 1 else 0) \<and>
            (\<forall>k. k < LMDataset_len ds \<longleftrightarrow> int k * L + L + 2 < int (length dataset)))"
proof -
  obtain l where l: "L = int l" "1 \<le> l" 
    using assms by (intro that[of "nat L"]) auto
  show ?thesis unfolding l(1)
  proof (intro conjI allI impI)
    assume "set dataset \<subseteq> dom d"
    then show "\<exists>ds. LMDataset_init d dataset (int l) = Inr ds" using l(2) by (intro LMDataset_total)
  next
    fix ds assume a: "LMDataset_init d dataset (int l) = Inr ds"
    show "int (LMDataset_len ds) =
      (if int l + 3 \<le> int (length dataset) then (int (length dataset) - int l - 3) div int l + 1 else 0)"
      unfolding LMDataset_len_pos[OF a l(2)] using l(2) by (intro count_formula) simp
    fix k
    show "k < LMDataset_len ds \<longleftrightarrow> int k * int l + int l + 2 < int (length dataset)"
      unfolding LMDataset_len_pos[OF a l(2)] using l(2) by (intro count_index) simp
  qed
qed

lemma shift_nth:
  assumes "j + 1 < length ind - 1"
  shows "slice_from_1 ind ! j = slice_to_last ind ! (j + 1)"
proof -
  have "tl ind ! j = ind ! (j + 1)" using assms by (simp add: nth_tl)
  moreover have "butlast ind ! (j + 1) = ind ! (j + 1)" using assms by (simp add: nth_butlast)
  ultimately show ?thesis by (simp add: slice_from_1_tl slice_to_last_butlast)
qed

lemma LMDataset_neg:
  assumes "LMDataset_init d dataset L = Inr ds" and "L < 0" and "k < LMDataset_len ds"
  shows "dataset = [] \<and> L = - 1 \<and> k = 0 \<and> xs ds = [[]] \<and> ys ds = [[]]"
proof -
  from LMDataset_init_Inr[OF assms(1)] obtain starts inds where
    r: "py_range 0 (int (length dataset) - L - 2) L = Inr starts"
    and i: "length inds = length starts"
      "\<forall>k < length starts. encode d (py_slice dataset (starts ! k) (starts ! k + L + 1)) = Inr (inds ! k)"
      "xs ds = map slice_to_last inds" "ys ds = map slice_from_1 inds" by blast
  have s: "starts = (if int (length dataset) = 0 \<and> L = - 1 then [0] else [])"
    using r assms(2) range_down_cases[of L "int (length dataset)"] by (simp add: py_range_def)
  have ne: "starts \<noteq> []" using assms(3) i(1,3) by (auto simp: LMDataset_len_def)
  with s have d: "dataset = []" "L = - 1" "starts = [0]" by (auto split: if_splits)
  have "encode d (py_slice dataset 0 (0 + L + 1)) = Inr (inds ! 0)" using i(2) d(3) by auto
  then have "inds ! 0 = []" by (simp add: d py_slice_def)
  moreover have "length inds = 1" using i(1) d(3) by simp
  ultimately have "inds = [[]]" by (cases inds) auto
  then show ?thesis using d i(3,4) assms(3)
    by (simp add: LMDataset_len_def slice_to_last_butlast slice_from_1_tl)
qed

text \<open>
  Claim C4. Whenever the constructor returns, its \<open>k\<close>-th example starts at \<open>i = k * L\<close>:
  the input holds the token indices of \<open>dataset[i : i+L]\<close>, the target those of
  \<open>dataset[i+1 : i+L+1]\<close>, both have \<open>L\<close> entries, and \<open>target[j] = input[j+1]\<close> for every
  \<open>j\<close> in \<open>0 .. L-2\<close>.
\<close>

theorem LMDataset_shift:
  assumes "LMDataset_init d dataset L = Inr ds" and "k < LMDataset_len ds"
  shows "k < length (ys ds) \<and>
         map Some (xs ds ! k) = map d (py_slice dataset (int k * L) (int k * L + L)) \<and>
         map Some (ys ds ! k) = map d (py_slice dataset (int k * L + 1) (int k * L + L + 1)) \<and>
         length (xs ds ! k) = nat L \<and> length (ys ds ! k) = nat L \<and>
         (\<forall>j. int j + 1 < L \<longrightarrow> ys ds ! k ! j = xs ds ! k ! (j + 1))"
proof -
  consider "L < 0" | "L = 0" | "1 \<le> L" by linarith
  then show ?thesis
  proof cases
    case 1
    from LMDataset_neg[OF assms(1) 1 assms(2)] show ?thesis by (simp add: py_slice_def)
  next
    case 2
    then have "LMDataset_init d dataset L = Inl ValueError"
      by (simp add: LMDataset_init_def py_range_def)
    with assms(1) show ?thesis by simp
  next
    case 3
    then obtain l where l: "L = int l" "1 \<le> l" by (intro that[of "nat L"]) auto
    from LMDataset_pos[OF assms(1)[unfolded l(1)] l(2)] obtain inds where i:
      "length inds = nat ((int (length dataset) - 3) div int l)"
      "\<forall>k < length inds. k * l + l + 2 < length dataset \<and>
          encode d (py_slice dataset (int (k * l)) (int (k * l + l + 1))) = Inr (inds ! k)"
      "xs ds = map slice_to_last inds" "ys ds = map slice_from_1 inds" by blast
    have k: "k < length inds" using assms(2) i(3) by (simp add: LMDataset_len_def)
    with i(2) have b: "k * l + l + 2 < length dataset"
      and e: "encode d (py_slice dataset (int (k * l)) (int (k * l + l + 1))) = Inr (inds ! k)"
      by auto
    note w = window_nat[OF b e]
    have x: "xs ds ! k = slice_to_last (inds ! k)" and y: "ys ds ! k = slice_from_1 (inds ! k)"
      using k i(3,4) by auto
    have c1: "int k * int l = int (k * l)" "int k * int l + int l = int (k * l + l)"
      "int k * int l + 1 = int (k * l + 1)" "int k * int l + int l + 1 = int (k * l + l + 1)"
      by simp_all
    have "\<forall>j. int j + 1 < int l \<longrightarrow> ys ds ! k ! j = xs ds ! k ! (j + 1)"
      unfolding x y using w(1) by (intro allI impI shift_nth) simp
    moreover have "length (xs ds ! k) = l" "length (ys ds ! k) = l"
      unfolding x y using w(1) by (simp_all add: slice_to_last_butlast slice_from_1_tl)
    ultimately show ?thesis unfolding l(1) c1 using k i(4) w(2,3) x y by (simp add: ac_simps)
  qed
qed

text \<open>
  Claim C5. The training split is the prefix of \<open>floor(7 * N / 10)\<close> characters of the corpus
  and the validation split is the rest; the vocabulary is the sorted list of the distinct
  characters of the training split, and of no other character; \<open>char2idx\<close> maps the
  \<open>i\<close>-th character of the vocabulary to \<open>i\<close>, so its keys are the characters of the
  training split and its values are \<open>0 .. vocab_size - 1\<close>.
\<close>

theorem corpus_split_and_vocabulary:
  "train_set text = take (7 * length text div 10) text \<and>
   val_set text = drop (7 * length text div 10) text \<and>
   train_set text @ val_set text = text \<and>
   vocab text = sorted_list_of_set (set (train_set text)) \<and>
   sorted (vocab text) \<and> distinct (vocab text) \<and> set (vocab text) = set (train_set text) \<and>
   (\<forall>i < length (vocab text). char2idx text (vocab text ! i) = Some i) \<and>
   dom (char2idx text) = set (train_set text) \<and>
   ran (char2idx text) = {0..<vocab_size text}"
proof -
  have "7 * length text div 10 = train_size text" by (simp add: train_size_def mult.commute)
  then have a: "train_set text = take (7 * length text div 10) text"
    "val_set text = drop (7 * length text div 10) text" "train_set text @ val_set text = text"
    by (simp_all add: train_set_def val_set_def)
  have b: "\<forall>i < length (vocab text). char2idx text (vocab text ! i) = Some i"
    by (simp add: char2idx_Some)
  have c: "vocab text = sorted_list_of_set (set (train_set text))" by (rule vocab_def)
  show ?thesis
    by (intro conjI a b c vocab_props dom_char2idx ran_char2idx)
qed

theorem corpus_split_and_vocabulary_witness:
  "train_set ''banana bread'' = ''banana b'' \<and> val_set ''banana bread'' = ''read'' \<and>
   vocab ''banana bread'' = '' abn'' \<and>
   char2idx ''banana bread'' CHR ''n'' = Some 3 \<and>
   char2idx ''banana bread'' CHR ''r'' = None"
proof -
  have v: "vocab ''banana bread'' = '' abn''" by code_simp
  have t: "train_set ''banana bread'' = ''banana b''" "val_set ''banana bread'' = ''read''"
    by (simp_all add: train_set_def val_set_def train_size_def)
  note c = corpus_split_and_vocabulary[of "''banana bread''"]
  have i: "\<forall>i < length (vocab ''banana bread'').
      char2idx ''banana bread'' (vocab ''banana bread'' ! i) = Some i"
    using c by (elim conjE)
  have n: "char2idx ''banana bread'' CHR ''n'' = Some 3"
    using i[unfolded v, rule_format, of 3] by simp
  have d: "dom (char2idx ''banana bread'') = set (train_set ''banana bread'')"
    using c by (elim conjE)
  have "CHR ''r'' \<notin> dom (char2idx ''banana bread'')" unfolding d t by simp
  then have r: "char2idx ''banana bread'' CHR ''r'' = None" by (simp add: domIff)
  show ?thesis by (intro conjI t v n r)
qed

theorem LMDataset_count_witness:
  "(1::int) \<le> 3 \<and>
   LMDataset_init (char2idx ''abcdeabcdeabcde'') ''abcdeabcd'' 3 =
     Inr \<lparr>xs = [[0, 1, 2], [3, 4, 0]], ys = [[1, 2, 3], [4, 0, 1]]\<rparr> \<and>
   LMDataset_len \<lparr>xs = [[0, 1, 2], [3, 4, 0]], ys = [[1, 2, 3], [4, 0, 1]]\<rparr> = 2 \<and>
   ((9::int) - 3 - 3) div 3 + 1 = 2"
proof -
  have e: "LMDataset_init (char2idx ''abcdeabcdeabcde'') ''abcdeabcd'' 3 =
     Inr \<lparr>xs = [[0, 1, 2], [3, 4, 0]], ys = [[1, 2, 3], [4, 0, 1]]\<rparr>" by code_simp
  have "int (LMDataset_len \<lparr>xs = [[0, 1, 2], [3, 4, 0]], ys = [[1, 2, 3], [4, 0, 1]]\<rparr>) =
     (if 3 + 3 \<le> int (length ''abcdeabcd'') then (int (length ''abcdeabcd'') - 3 - 3) div 3 + 1 else 0)"
    using LMDataset_count[of 3 "''abcdeabcd''" "char2idx ''abcdeabcdeabcde''"] e by simp
  then show ?thesis using e by simp
qed

text \<open>
  The claim as the specification words it (\<open>floor((N - L - 2) / L) + 1\<close> examples when
  \<open>N \<ge> L + 2\<close>, one for every start with \<open>i + L + 2 \<le> N\<close>) fails at the boundary: the
  validation split of the corpus \<open>abcdeabcdeabcde\<close> has \<open>N = 5 = L + 2\<close> characters for
  \<open>L = 3\<close>, the formula gives one example and the start \<open>0\<close> satisfies \<open>0 + L + 2 \<le> N\<close>, but
  \<open>range(0, 0, 3)\<close> is empty and the dataset has no example.
\<close>

theorem LMDataset_count_counterexample:
  "LMDataset_init (char2idx ''abcdeabcdeabcde'') (val_set ''abcdeabcdeabcde'') 3 =
     Inr \<lparr>xs = [], ys = []\<rparr> \<and>
   LMDataset_len \<lparr>xs = [], ys = []\<rparr> = 0 \<and>
   int (length (val_set ''abcdeabcdeabcde'')) = 5 \<and>
   (3::int) + 2 \<le> 5 \<and> ((5::int) - 3 - 2) div 3 + 1 = 1 \<and> (0::int) + 3 + 2 \<le> 5"
proof -
  have "LMDataset_init (char2idx ''abcdeabcdeabcde'') (val_set ''abcdeabcdeabcde'') 3 =
     Inr \<lparr>xs = [], ys = []\<rparr>" by code_simp
  then show ?thesis by (simp add: LMDataset_len_def val_set_def train_size_def)
qed

theorem LMDataset_shift_witness:
  "LMDataset_init (char2idx ''abcdeabcdeabcde'') ''abcdeabcd'' 3 =
     Inr \<lparr>xs = [[0, 1, 2], [3, 4, 0]], ys = [[1, 2, 3], [4, 0, 1]]\<rparr> \<and>
   map Some [3, 4, 0] = map (char2idx ''abcdeabcdeabcde'') ''dea'' \<and>
   map Some [4, 0, 1] = map (char2idx ''abcdeabcdeabcde'') ''eab'' \<and>
   [4, 0, 1 :: nat] ! 0 = [3, 4, 0] ! 1 \<and> [4, 0, 1 :: nat] ! 1 = [3, 4, 0] ! 2"
proof -
  let ?d = "char2idx ''abcdeabcdeabcde''"
  let ?ds = "\<lparr>xs = [[0, 1, 2], [3, 4, 0]], ys = [[1, 2, 3], [4, 0, 1]]\<rparr>"
  have e: "LMDataset_init ?d ''abcdeabcd'' 3 = Inr ?ds" by code_simp
  have k: "1 < LMDataset_len ?ds" by (simp add: LMDataset_len_def)
  have s: "py_slice ''abcdeabcd'' 3 6 = ''dea''" "py_slice ''abcdeabcd'' 4 7 = ''eab''"
    by (simp_all add: py_slice_def slice_index_def)
  from LMDataset_shift[OF e k] show ?thesis using e s by simp
qed

section \<open>Properties of the trainer's validation pass\<close>

lemma chunks_concat: "0 < n \<Longrightarrow> concat (chunks n l) = l"
proof (induction n l rule: chunks.induct)
  case (1 n l)
  then show ?case by (subst chunks.simps) auto
qed

lemma chunks_Nil_iff: "0 < n \<Longrightarrow> chunks n l = [] \<longleftrightarrow> l = []"
  by (subst chunks.simps) auto

lemma mask_sum_gt0: "mask_sum (gt0 a) = length (filter (\<lambda>t. 0 < t) (concat a))"
proof -
  have r: "(\<Sum>t\<leftarrow>r. of_bool (0 < t)) = length (filter (\<lambda>t. 0 < t) r)" for r :: "nat list"
    by (induction r) auto
  show ?thesis unfolding mask_sum_def gt0_def
    by (induction a) (auto simp: r comp_def)
qed

lemma mask_sum_Nil: "mask_sum [] = 0"
  by (simp add: mask_sum_def)

lemma mask_sum_Cons: "mask_sum (r # a) = (\<Sum>b\<leftarrow>r. of_bool b) + mask_sum a"
  by (simp add: mask_sum_def)

lemma row_and_le: "(\<Sum>b\<leftarrow>map2 (\<and>) r s. of_bool b) \<le> (\<Sum>b\<leftarrow>s. (of_bool b :: nat))"
proof (induction r arbitrary: s)
  case Nil
  then show ?case by simp
next
  case (Cons x r)
  show ?case
  proof (cases s)
    case Nil
    then show ?thesis by simp
  next
    case (Cons y s')
    then show ?thesis using Cons.IH[of s'] by (cases x; cases y) auto
  qed
qed

lemma mask_sum_mul_bool_le: "mask_sum (mul_bool a m) \<le> mask_sum m"
proof (induction a arbitrary: m)
  case Nil
  then show ?case by (simp add: mul_bool_def mask_sum_Nil)
next
  case (Cons r a)
  show ?case
  proof (cases m)
    case Nil
    then show ?thesis by (simp add: mul_bool_def)
  next
    case (Cons s m')
    have "mask_sum (mul_bool (r # a) (s # m')) =
        (\<Sum>b\<leftarrow>map2 (\<and>) r s. of_bool b) + mask_sum (mul_bool a m')"
      by (simp add: mul_bool_def mask_sum_def)
    also have "\<dots> \<le> (\<Sum>b\<leftarrow>s. of_bool b) + mask_sum m'"
      using row_and_le[of r s] Cons.IH[of m'] by (rule add_mono)
    finally show ?thesis using Cons by (simp add: mask_sum_Cons)
  qed
qed

text \<open>The loop of \<open>validate\<close>: what it has accumulated after a list of batches.\<close>


lemma validate_loop_sums:
  "validate_loop fw self (tc, vl, c) batches =
     (tc + (\<Sum>b\<leftarrow>batches. mask_sum (gt0 (fst b))),
      vl + (\<Sum>b\<leftarrow>batches. Trainer_loss self (forward fw (model self) (fst b)) (snd b) (gt0 (fst b))),
      c + (\<Sum>b\<leftarrow>batches. mask_sum (mul_bool
          (eq_tensor (argmax_last (forward fw (model self) (fst b))) (snd b)) (gt0 (fst b)))))"
proof (induction batches arbitrary: tc vl c)
  case Nil
  then show ?case by simp
next
  case (Cons b batches)
  obtain toks tgt where b: "b = (toks, tgt)" by (cases b)
  show ?case unfolding b
    by (simp add: Let_def Cons.IH add.assoc)
qed

lemma DataLoader_iter_batches:
  assumes "0 < bs" and "DataLoader_iter rp (DataLoader ds bs) g = (batches, g')"
  shows "concat (map fst batches) = map (\<lambda>i. xs ds ! i) (fst (rp (LMDataset_len ds) g))"
    and "concat (map snd batches) = map (\<lambda>i. ys ds ! i) (fst (rp (LMDataset_len ds) g))"
    and "batches = [] \<longleftrightarrow> fst (rp (LMDataset_len ds) g) = []"
    and "g' = snd (rp (LMDataset_len ds) g)"
proof -
  let ?perm = "fst (rp (LMDataset_len ds) g)"
  have b: "batches = map (collate ds) (chunks bs ?perm)" and g: "g' = snd (rp (LMDataset_len ds) g)"
    using assms(2) by (auto simp: Let_def split: prod.splits)
  have "map fst batches = map (map (\<lambda>i. xs ds ! i)) (chunks bs ?perm)"
    unfolding b by (simp add: collate_def)
  then show "concat (map fst batches) = map (\<lambda>i. xs ds ! i) ?perm"
    using chunks_concat[OF assms(1), of ?perm] by (simp add: map_concat[symmetric])
  have "map snd batches = map (map (\<lambda>i. ys ds ! i)) (chunks bs ?perm)"
    unfolding b by (simp add: collate_def)
  then show "concat (map snd batches) = map (\<lambda>i. ys ds ! i) ?perm"
    using chunks_concat[OF assms(1), of ?perm] by (simp add: map_concat[symmetric])
  show "batches = [] \<longleftrightarrow> ?perm = []" unfolding b using chunks_Nil_iff[OF assms(1)] by simp
  show "g' = snd (rp (LMDataset_len ds) g)" by (rule g)
qed

lemma count_concat: "length (filter P (concat l)) = (\<Sum>r\<leftarrow>l. length (filter P r))"
  by (induction l) auto

lemma sum_over_permutation:
  assumes "distinct perm" and "set perm = {0..<length l}"
  shows "(\<Sum>i\<leftarrow>perm. f (l ! i)) = (\<Sum>r\<leftarrow>l. (f r :: nat))"
proof -
  have "(\<Sum>i\<leftarrow>perm. f (l ! i)) = (\<Sum>i\<in>set perm. f (l ! i))"
    using assms(1) by (rule sum_list_distinct_conv_sum_set)
  also have "\<dots> = (\<Sum>i = 0..<length l. f (l ! i))" unfolding assms(2) ..
  also have "\<dots> = (\<Sum>i = 0..<length (map f l). map f l ! i)" by simp
  also have "\<dots> = sum_list (map f l)" by (rule sum_list_sum_nth[symmetric])
  finally show ?thesis .
qed

lemma tokens_count_pass:
  assumes "0 < bs" and "DataLoader_iter rp (DataLoader ds bs) g = (batches, g')"
    and "distinct (fst (rp (LMDataset_len ds) g))"
    and "set (fst (rp (LMDataset_len ds) g)) = {0..<LMDataset_len ds}"
  shows "(\<Sum>b\<leftarrow>batches. mask_sum (gt0 (fst b))) = length (filter (\<lambda>t. 0 < t) (concat (xs ds)))"
proof -
  let ?perm = "fst (rp (LMDataset_len ds) g)"
  let ?cnt = "\<lambda>r. length (filter (\<lambda>t. 0 < t) r)"
  have "(\<Sum>b\<leftarrow>batches. mask_sum (gt0 (fst b))) = (\<Sum>a\<leftarrow>map fst batches. ?cnt (concat a))"
    by (simp add: mask_sum_gt0 comp_def)
  also have "\<dots> = (\<Sum>a\<leftarrow>map fst batches. \<Sum>r\<leftarrow>a. ?cnt r)" by (simp add: count_concat)
  also have "\<dots> = (\<Sum>r\<leftarrow>concat (map fst batches). ?cnt r)"
    by (induction batches) auto
  also have "\<dots> = (\<Sum>i\<leftarrow>?perm. ?cnt (xs ds ! i))"
    unfolding DataLoader_iter_batches(1)[OF assms(1,2)] by (simp add: comp_def)
  also have "\<dots> = (\<Sum>r\<leftarrow>xs ds. ?cnt r)"
    using assms(3,4) by (intro sum_over_permutation) (simp_all add: LMDataset_len_def)
  also have "\<dots> = ?cnt (concat (xs ds))" by (simp add: count_concat)
  finally show ?thesis .
qed

lemma row_masked_sum:
  assumes "length r = length s"
  shows "sum_list (map2 (\<lambda>z m. z * of_bool m) r (map (\<lambda>t. 0 < t) s)) =
         (\<Sum>l<length s. if 0 < s ! l then r ! l else (0::real))"
  using assms
proof (induction r s rule: list_induct2)
  case Nil
  then show ?case by simp
next
  case (Cons z r t s)
  then show ?case by (simp add: sum.lessThan_Suc_shift cong: if_cong del: sum.lessThan_Suc)
qed

lemma masked_sum_positions:
  assumes "map length ce = map length toks"
  shows "tensor_sum (mul_mask ce (gt0 toks)) =
         (\<Sum>n<length toks. \<Sum>l<length (toks ! n). if 0 < toks ! n ! l then ce ! n ! l else 0)"
proof -
  have "length ce = length toks" using assms by (metis length_map)
  then show ?thesis using assms
  proof (induction ce toks rule: list_induct2)
    case Nil
    then show ?case by (simp add: tensor_sum_def mul_mask_def gt0_def)
  next
    case (Cons r ce s toks)
    have "tensor_sum (mul_mask (r # ce) (gt0 (s # toks))) =
        sum_list (map2 (\<lambda>z m. z * of_bool m) r (map (\<lambda>t. 0 < t) s)) + tensor_sum (mul_mask ce (gt0 toks))"
      by (simp add: tensor_sum_def mul_mask_def gt0_def)
    also have "\<dots> = (\<Sum>l<length s. if 0 < s ! l then r ! l else 0) +
        (\<Sum>n<length toks. \<Sum>l<length (toks ! n). if 0 < toks ! n ! l then ce ! n ! l else 0)"
      using Cons by (simp add: row_masked_sum)
    finally show ?case by (simp add: sum.lessThan_Suc_shift cong: if_cong del: sum.lessThan_Suc)
  qed
qed

lemma row_correct_count:
  assumes "length p = length s" and "length q = length s"
  shows "(\<Sum>b\<leftarrow>map2 (\<and>) (map2 (=) p q) (map (\<lambda>t. 0 < t) s). of_bool b) =
         (\<Sum>l<length s. if 0 < s ! l \<and> p ! l = q ! l then (1::nat) else 0)"
proof -
  have "length p = length q" "length q = length s" using assms by simp_all
  then show ?thesis
proof (induction p q s rule: list_induct3)
  case Nil
  then show ?case by simp
next
  case (Cons x p y q t s)
  then show ?case by (auto simp: sum.lessThan_Suc_shift cong: if_cong simp del: sum.lessThan_Suc)
qed
qed

lemma correct_positions:
  assumes "map length am = map length toks" and "map length tgt = map length toks"
  shows "mask_sum (mul_bool (eq_tensor am tgt) (gt0 toks)) =
         (\<Sum>n<length toks. \<Sum>l<length (toks ! n).
            if 0 < toks ! n ! l \<and> am ! n ! l = tgt ! n ! l then 1 else 0)"
proof -
  have "length am = length tgt" "length tgt = length toks" using assms by (metis length_map)+
  then show ?thesis using assms
  proof (induction am tgt toks rule: list_induct3)
    case Nil
    then show ?case by (simp add: mul_bool_def eq_tensor_def gt0_def mask_sum_Nil)
  next
    case (Cons p am q tgt s toks)
    have "mask_sum (mul_bool (eq_tensor (p # am) (q # tgt)) (gt0 (s # toks))) =
        (\<Sum>b\<leftarrow>map2 (\<and>) (map2 (=) p q) (map (\<lambda>t. 0 < t) s). of_bool b) +
        mask_sum (mul_bool (eq_tensor am tgt) (gt0 toks))"
      by (simp add: mask_sum_def mul_bool_def eq_tensor_def gt0_def)
    also have "\<dots> = (\<Sum>l<length s. if 0 < s ! l \<and> p ! l = q ! l then 1 else 0) +
        (\<Sum>n<length toks. \<Sum>l<length (toks ! n).
            if 0 < toks ! n ! l \<and> am ! n ! l = tgt ! n ! l then 1 else 0)"
    proof -
      have r: "length p = length s" "length q = length s" using Cons.prems Cons.hyps by simp_all
      have "map length am = map length toks" "map length tgt = map length toks"
        using Cons.prems by simp_all
      from Cons.IH[OF this] show ?thesis by (simp only: row_correct_count[OF r])
    qed
    finally show ?case by (simp add: sum.lessThan_Suc_shift cong: if_cong del: sum.lessThan_Suc)
  qed
qed

lemma Trainer_loss_positions:
  assumes "map length (loss_fn self (permute_021 out) tgt) = map length toks"
  shows "Trainer_loss self out tgt (gt0 toks) =
         (\<Sum>n<length toks. \<Sum>l<length (toks ! n).
            if 0 < toks ! n ! l then loss_fn self (permute_021 out) tgt ! n ! l else 0)"
  unfolding Trainer_loss_def Let_def using assms by (rule masked_sum_positions)

lemma validate_result:
  assumes "DataLoader_iter (randperm fw) (val_loader (datasets self)) g = (batches, g')"
    and "validate_loop fw self (0, 0, 0) batches = (tokens_count, val_loss, correct)"
  shows "Trainer_validate fw self g =
     (if batches = [] then Inl ZeroDivisionError
      else Inr ((tensor_div val_loss tokens_count, tensor_div (real correct) tokens_count), g'))"
  using assms by (simp add: Trainer_validate_def)

lemma sum_list_le: "(\<And>b. b \<in> set l \<Longrightarrow> f b \<le> (h b :: nat)) \<Longrightarrow> (\<Sum>b\<leftarrow>l. f b) \<le> (\<Sum>b\<leftarrow>l. h b)"
  by (induction l) (auto intro: add_mono)

text \<open>With the loss function of \<open>train()\<close> and an output of shape \<open>[N, L, C]\<close>, the loss at
  a position is minus the output's entry for the target token there: the cross-entropy
  term, when the outputs are log-probabilities.\<close>

lemma NLLLoss_none_position:
  assumes n: "n < length out" "n < length target"
    and l: "l < length (target ! n)" "length (out ! n) = length (target ! n)"
    and c: "\<forall>i < length (out ! n). length (out ! n ! i) = C" "target ! n ! l < C"
  shows "NLLLoss_none (permute_021 out) target ! n ! l = - (out ! n ! l ! (target ! n ! l))"
proof -
  let ?m = "out ! n" and ?t = "target ! n ! l"
  have ne: "?m \<noteq> []" using l by auto
  have tr: "transpose ?m = map (\<lambda>i. map (\<lambda>j. ?m ! j ! i) [0..<length ?m]) [0..<C]"
    using c(1) ne by (intro transpose_rectangle) auto
  have "NLLLoss_none (permute_021 out) target ! n =
      map (\<lambda>(l, t). - (transpose ?m ! t ! l)) (enumerate 0 (target ! n))"
    using n by (simp add: NLLLoss_none_def permute_021_def)
  then have "NLLLoss_none (permute_021 out) target ! n ! l = - (transpose ?m ! ?t ! l)"
    using l(1) by (simp add: nth_enumerate_eq)
  also have "transpose ?m ! ?t ! l = ?m ! l ! ?t"
    unfolding tr using c(2) l by simp
  finally show ?thesis .
qed

text \<open>
  Claim C3, as the code has it. Let the validation loader hold the dataset \<open>ds\<close>, let its
  pass visit every example once (the random order is a permutation of the indices), and
  let \<open>tokens_count\<close>, \<open>val_loss\<close> and \<open>correct\<close> be what the loop of \<open>validate\<close> has
  accumulated. Then \<open>tokens_count\<close> is the number of input token indices of the validation
  set that are greater than zero; \<open>val_loss\<close> is the sum over the batches of
  \<open>Trainer.loss\<close>, which is the sum (not the mean) over the positions of a batch of the
  loss function's value where the input token is greater than zero and of zero elsewhere;
  \<open>correct\<close> is the number of positions with an input token greater than zero where the
  top-1 prediction equals the target; \<open>correct \<le> tokens_count\<close>; and, when
  \<open>tokens_count > 0\<close>, \<open>validate\<close> returns \<open>val_loss / tokens_count\<close> and the accuracy
  \<open>correct / tokens_count\<close>, which lies in \<open>[0, 1]\<close>.
\<close>

theorem validate_masking:
  assumes vl: "val_loader (datasets self) = DataLoader ds bs" and bs: "0 < bs"
    and perm: "distinct (fst (randperm fw (LMDataset_len ds) g))"
      "set (fst (randperm fw (LMDataset_len ds) g)) = {0..<LMDataset_len ds}"
    and it: "DataLoader_iter (randperm fw) (val_loader (datasets self)) g = (batches, g')"
    and acc: "validate_loop fw self (0, 0, 0) batches = (tokens_count, val_loss, correct)"
  shows "tokens_count = length (filter (\<lambda>t. 0 < t) (concat (xs ds))) \<and>
    val_loss = (\<Sum>(toks, tgt)\<leftarrow>batches.
        Trainer_loss self (forward fw (model self) toks) tgt (gt0 toks)) \<and>
    (\<forall>out toks tgt. map length (loss_fn self (permute_021 out) tgt) = map length toks \<longrightarrow>
        Trainer_loss self out tgt (gt0 toks) =
          (\<Sum>n<length toks. \<Sum>l<length (toks ! n).
             if 0 < toks ! n ! l then loss_fn self (permute_021 out) tgt ! n ! l else 0)) \<and>
    correct = (\<Sum>(toks, tgt)\<leftarrow>batches.
        mask_sum (mul_bool (eq_tensor (argmax_last (forward fw (model self) toks)) tgt) (gt0 toks))) \<and>
    (\<forall>am toks tgt. map length am = map length toks \<and> map length tgt = map length toks \<longrightarrow>
        mask_sum (mul_bool (eq_tensor am tgt) (gt0 toks)) =
          (\<Sum>n<length toks. \<Sum>l<length (toks ! n).
             if 0 < toks ! n ! l \<and> am ! n ! l = tgt ! n ! l then 1 else 0)) \<and>
    correct \<le> tokens_count \<and>
    (0 < tokens_count \<longrightarrow>
       Trainer_validate fw self g =
         Inr ((Val (val_loss / real tokens_count), Val (real correct / real tokens_count)), g') \<and>
       0 \<le> real correct / real tokens_count \<and> real correct / real tokens_count \<le> 1)"
proof -
  note s = validate_loop_sums[of fw self 0 0 0 batches, unfolded acc]
  have tc: "tokens_count = (\<Sum>b\<leftarrow>batches. mask_sum (gt0 (fst b)))" using s by simp
  have c: "correct = (\<Sum>b\<leftarrow>batches. mask_sum (mul_bool
          (eq_tensor (argmax_last (forward fw (model self) (fst b))) (snd b)) (gt0 (fst b))))"
    using s by simp
  have v: "val_loss = (\<Sum>b\<leftarrow>batches.
      Trainer_loss self (forward fw (model self) (fst b)) (snd b) (gt0 (fst b)))" using s by simp
  have 1: "tokens_count = length (filter (\<lambda>t. 0 < t) (concat (xs ds)))"
    unfolding tc using tokens_count_pass[OF bs it[unfolded vl] perm] .
  have le: "correct \<le> tokens_count" unfolding tc c
    by (intro sum_list_le mask_sum_mul_bool_le)
  have 7: "Trainer_validate fw self g =
         Inr ((Val (val_loss / real tokens_count), Val (real correct / real tokens_count)), g') \<and>
       0 \<le> real correct / real tokens_count \<and> real correct / real tokens_count \<le> 1"
    if pos: "0 < tokens_count"
  proof -
    have "batches \<noteq> []" using pos tc by auto
    then have "Trainer_validate fw self g =
         Inr ((Val (val_loss / real tokens_count), Val (real correct / real tokens_count)), g')"
      using validate_result[OF it acc] pos by (simp add: tensor_div_def)
    moreover have "real correct / real tokens_count \<le> 1" using le pos by simp
    ultimately show ?thesis by simp
  qed
  have v': "val_loss = (\<Sum>(toks, tgt)\<leftarrow>batches.
        Trainer_loss self (forward fw (model self) toks) tgt (gt0 toks))"
    unfolding v by (simp add: case_prod_unfold)
  have c': "correct = (\<Sum>(toks, tgt)\<leftarrow>batches.
        mask_sum (mul_bool (eq_tensor (argmax_last (forward fw (model self) toks)) tgt) (gt0 toks)))"
    unfolding c by (simp add: case_prod_unfold)
  show ?thesis
  proof (intro conjI allI impI)
    show "tokens_count = length (filter (\<lambda>t. 0 < t) (concat (xs ds)))" by (rule 1)
    show "correct \<le> tokens_count" by (rule le)
  qed (use v' c' 7 in \<open>auto intro: Trainer_loss_positions correct_positions\<close>)
qed

lemma masked_sum_all_zero:
  assumes "\<forall>t\<in>set (concat toks). t = 0"
  shows "tensor_sum (mul_mask ce (gt0 toks)) = 0"
proof -
  have r: "sum_list (map2 (\<lambda>z m. z * of_bool m) r (map (\<lambda>t. 0 < t) s)) = (0::real)"
    if "\<forall>t\<in>set s. t = 0" for r and s :: "nat list"
    using that
  proof (induction r arbitrary: s)
    case Nil
    then show ?case by simp
  next
    case (Cons z r)
    then show ?case by (cases s) auto
  qed
  show ?thesis using assms
  proof (induction ce arbitrary: toks)
    case Nil
    then show ?case by (simp add: tensor_sum_def mul_mask_def)
  next
    case (Cons c ce)
    show ?case
    proof (cases toks)
      case Nil
      then show ?thesis by (simp add: tensor_sum_def mul_mask_def gt0_def)
    next
      case (Cons s toks')
      have "tensor_sum (mul_mask (c # ce) (gt0 (s # toks'))) =
          sum_list (map2 (\<lambda>z m. z * of_bool m) c (map (\<lambda>t. 0 < t) s)) + tensor_sum (mul_mask ce (gt0 toks'))"
        by (simp add: tensor_sum_def mul_mask_def gt0_def)
      also have "\<dots> = 0" using Cons.prems Cons.IH[of toks'] Cons by (simp add: r)
      finally show ?thesis using Cons by simp
    qed
  qed
qed

lemma sum_list_all_zero: "(\<And>b. b \<in> set l \<Longrightarrow> f b = (0::real)) \<Longrightarrow> (\<Sum>b\<leftarrow>l. f b) = 0"
  by (induction l) auto

lemma pass_tokens_subset:
  assumes "0 < bs" and "DataLoader_iter rp (DataLoader ds bs) g = (batches, g')"
    and "set (fst (rp (LMDataset_len ds) g)) = {0..<LMDataset_len ds}"
    and "b \<in> set batches"
  shows "set (concat (fst b)) \<subseteq> set (concat (xs ds))"
proof -
  have "set (fst b) \<subseteq> set (concat (map fst batches))" using assms(4) by auto
  also have "\<dots> = (\<lambda>i. xs ds ! i) ` {0..<LMDataset_len ds}"
    unfolding DataLoader_iter_batches(1)[OF assms(1,2)] using assms(3) by simp
  also have "\<dots> \<subseteq> set (xs ds)" by (auto simp: LMDataset_len_def)
  finally show ?thesis by auto
qed

text \<open>
  Claim C10. Under the same conditions on the loader, the divisor \<open>tokens_count\<close> of
  \<open>validate\<close> is nonzero exactly when some input token index of the validation set is
  greater than zero, and then both results are numbers. When every token index is \<open>0\<close>, or
  the set is empty, \<open>tokens_count\<close>, \<open>val_loss\<close> and \<open>correct\<close> are all zero and the division
  is by zero: Python's \<open>0 / 0\<close> raises when there was no batch, the tensors' \<open>0 / 0\<close> is
  not-a-number otherwise.
\<close>

theorem validate_divisor:
  assumes vl: "val_loader (datasets self) = DataLoader ds bs" and bs: "0 < bs"
    and perm: "distinct (fst (randperm fw (LMDataset_len ds) g))"
      "set (fst (randperm fw (LMDataset_len ds) g)) = {0..<LMDataset_len ds}"
    and it: "DataLoader_iter (randperm fw) (val_loader (datasets self)) g = (batches, g')"
    and acc: "validate_loop fw self (0, 0, 0) batches = (tokens_count, val_loss, correct)"
  shows "(0 < tokens_count \<longleftrightarrow> (\<exists>t\<in>set (concat (xs ds)). 0 < t)) \<and>
    ((\<exists>t\<in>set (concat (xs ds)). 0 < t) \<longrightarrow>
       Trainer_validate fw self g =
         Inr ((Val (val_loss / real tokens_count), Val (real correct / real tokens_count)), g')) \<and>
    ((\<forall>t\<in>set (concat (xs ds)). t = 0) \<longrightarrow>
       tokens_count = 0 \<and> val_loss = 0 \<and> correct = 0 \<and>
       Trainer_validate fw self g =
         (if xs ds = [] then Inl ZeroDivisionError else Inr ((NaN, NaN), g')))"
proof -
  note s = validate_loop_sums[of fw self 0 0 0 batches, unfolded acc]
  have tcs: "tokens_count = (\<Sum>b\<leftarrow>batches. mask_sum (gt0 (fst b)))" using s by simp
  have c: "correct = (\<Sum>b\<leftarrow>batches. mask_sum (mul_bool
          (eq_tensor (argmax_last (forward fw (model self) (fst b))) (snd b)) (gt0 (fst b))))"
    using s by simp
  have v: "val_loss = (\<Sum>b\<leftarrow>batches.
      Trainer_loss self (forward fw (model self) (fst b)) (snd b) (gt0 (fst b)))" using s by simp
  have tc: "tokens_count = length (filter (\<lambda>t. 0 < t) (concat (xs ds)))"
    unfolding tcs using tokens_count_pass[OF bs it[unfolded vl] perm] .
  have le: "correct \<le> tokens_count" unfolding tcs c
    by (intro sum_list_le mask_sum_mul_bool_le)
  have iff: "0 < tokens_count \<longleftrightarrow> (\<exists>t\<in>set (concat (xs ds)). 0 < t)"
    unfolding tc by (simp add: filter_empty_conv)
  have e: "batches = [] \<longleftrightarrow> xs ds = []"
    using DataLoader_iter_batches(3)[OF bs it[unfolded vl]] perm(2)
    by (auto simp: LMDataset_len_def)
  have pos: "Trainer_validate fw self g =
         Inr ((Val (val_loss / real tokens_count), Val (real correct / real tokens_count)), g')"
    if "\<exists>t\<in>set (concat (xs ds)). 0 < t"
  proof -
    have p: "0 < tokens_count" using that iff by simp
    then have "batches \<noteq> []" using tcs by auto
    then show ?thesis using validate_result[OF it acc] p by (simp add: tensor_div_def)
  qed
  have zero: "tokens_count = 0 \<and> val_loss = 0 \<and> correct = 0 \<and>
       Trainer_validate fw self g =
         (if xs ds = [] then Inl ZeroDivisionError else Inr ((NaN, NaN), g'))"
    if z: "\<forall>t\<in>set (concat (xs ds)). t = 0"
  proof -
    have t0: "tokens_count = 0" using z iff by auto
    then have c0: "correct = 0" using le by simp
    have "Trainer_loss self (forward fw (model self) (fst b)) (snd b) (gt0 (fst b)) = 0"
      if "b \<in> set batches" for b
      unfolding Trainer_loss_def Let_def
      using pass_tokens_subset[OF bs it[unfolded vl] perm(2) that] z
      by (intro masked_sum_all_zero) blast
    then have v0: "val_loss = 0" unfolding v by (intro sum_list_all_zero) blast

    show ?thesis using validate_result[OF it acc] t0 c0 v0 e by (simp add: tensor_div_def)
  qed
  show ?thesis using iff pos zero by blast
qed

theorem validate_masking_witness:
  "validate_loop toy_torch (toy_trainer toy_datasets) (0, 0, 0)
     [([[0, 1], [2, 0]], [[1, 2], [0, 1]])] = (2, 4, 1) \<and>
   (2::nat) = length (filter (\<lambda>t. 0 < t) (concat [[0, 1], [2, 0 :: nat]])) \<and>
   Trainer_validate toy_torch (toy_trainer toy_datasets) () = Inr ((Val (4 / 2), Val (1 / 2)), ()) \<and>
   (0::real) \<le> 1 / 2 \<and> (1::real) / 2 \<le> 1"
proof -
  let ?ds = "\<lparr>xs = [[0, 1], [2, 0]], ys = [[1, 2], [0, 1]]\<rparr>"
  have vl: "val_loader (datasets (toy_trainer toy_datasets)) = DataLoader ?ds 2" by code_simp
  have p: "distinct (fst (randperm toy_torch (LMDataset_len ?ds) ()))"
    "set (fst (randperm toy_torch (LMDataset_len ?ds) ())) = {0..<LMDataset_len ?ds}"
    by (simp_all add: toy_torch_def)
  have it: "DataLoader_iter (randperm toy_torch) (val_loader (datasets (toy_trainer toy_datasets))) ()
      = ([([[0, 1], [2, 0]], [[1, 2], [0, 1]])], ())" by code_simp
  have acc: "validate_loop toy_torch (toy_trainer toy_datasets) (0, 0, 0)
     [([[0, 1], [2, 0]], [[1, 2], [0, 1]])] = (2, 4, 1)" by code_simp
  from validate_masking[OF vl _ p it acc] 
  have "2 = length (filter (\<lambda>t. 0 < t) (concat (xs ?ds)))"
    "Trainer_validate toy_torch (toy_trainer toy_datasets) () =
       Inr ((Val (4 / real (2::nat)), Val (real (1::nat) / real (2::nat))), ())"
    by simp_all
  then show ?thesis using acc by simp
qed

text \<open>
  Without \<open>tokens_count > 0\<close> the returned accuracy need not be a number of \<open>[0, 1]\<close>: for
  a corpus of twenty \<open>a\<close> every token index is \<open>0\<close>, every mask is false, and \<open>validate\<close>
  returns not-a-number twice (\<open>0 / 0\<close> on tensors), whatever the model computes.
\<close>

theorem validate_masking_counterexample:
  "Datasets_init ''aaaaaaaaaaaaaaaaaaaa'' 1 1 = Inr zero_datasets \<and>
   Trainer_validate toy_torch (toy_trainer zero_datasets) () = Inr ((NaN, NaN), ())"
proof -
  have "Datasets_init ''aaaaaaaaaaaaaaaaaaaa'' 1 1 = Inr zero_datasets" by code_simp
  moreover have "Trainer_validate toy_torch (toy_trainer zero_datasets) () = Inr ((NaN, NaN), ())"
    by code_simp
  ultimately show ?thesis by simp
qed

theorem validate_divisor_witness:
  "Trainer_validate toy_torch (toy_trainer toy_datasets) () = Inr ((Val (4 / 2), Val (1 / 2)), ()) \<and>
   Trainer_validate toy_torch (toy_trainer zero_datasets) () = Inr ((NaN, NaN), ()) \<and>
   validate_loop toy_torch (toy_trainer zero_datasets) (0, 0, 0)
     [([[0], [0]], [[0], [0]]), ([[0]], [[0]])] = (0, 0, 0)"
proof -
  let ?ds = "\<lparr>xs = [[0, 1], [2, 0]], ys = [[1, 2], [0, 1]]\<rparr>"
  have vl: "val_loader (datasets (toy_trainer toy_datasets)) = DataLoader ?ds 2" by code_simp
  have p: "distinct (fst (randperm toy_torch (LMDataset_len ?ds) ()))"
    "set (fst (randperm toy_torch (LMDataset_len ?ds) ())) = {0..<LMDataset_len ?ds}"
    by (simp_all add: toy_torch_def)
  have it: "DataLoader_iter (randperm toy_torch) (val_loader (datasets (toy_trainer toy_datasets))) ()
      = ([([[0, 1], [2, 0]], [[1, 2], [0, 1]])], ())" by code_simp
  have acc: "validate_loop toy_torch (toy_trainer toy_datasets) (0, 0, 0)
     [([[0, 1], [2, 0]], [[1, 2], [0, 1]])] = (2, 4, 1)" by code_simp
  have ex: "\<exists>t\<in>set (concat (xs ?ds)). 0 < t" by simp
  from validate_divisor[OF vl _ p it acc] ex
  have a: "Trainer_validate toy_torch (toy_trainer toy_datasets) () =
       Inr ((Val (4 / real (2::nat)), Val (real (1::nat) / real (2::nat))), ())"
    by simp
  let ?zs = "\<lparr>xs = replicate 3 [0], ys = replicate 3 [0]\<rparr>"
  have vl0: "val_loader (datasets (toy_trainer zero_datasets)) = DataLoader ?zs 2" by code_simp
  have p0: "distinct (fst (randperm toy_torch (LMDataset_len ?zs) ()))"
    "set (fst (randperm toy_torch (LMDataset_len ?zs) ())) = {0..<LMDataset_len ?zs}"
    by (simp_all add: toy_torch_def)
  have it0: "DataLoader_iter (randperm toy_torch) (val_loader (datasets (toy_trainer zero_datasets))) ()
      = ([([[0], [0]], [[0], [0]]), ([[0]], [[0]])], ())" by code_simp
  have acc0: "validate_loop toy_torch (toy_trainer zero_datasets) (0, 0, 0)
     [([[0], [0]], [[0], [0]]), ([[0]], [[0]])] = (0, 0, 0)" by code_simp
  have all0: "\<forall>t\<in>set (concat (xs ?zs)). t = 0" by simp
  from validate_divisor[OF vl0 _ p0 it0 acc0] all0
  have b: "Trainer_validate toy_torch (toy_trainer zero_datasets) () = Inr ((NaN, NaN), ())"
    by simp
  show ?thesis using a b acc0 by simp
qed

section \<open>Properties of the training run\<close>

lemma range_up_length: "length (range_up 0 n 1) = nat n"
  by (simp add: range_up_map)

lemma train_loop_fields:
  "train_loop fw self losses batches = (self', losses') \<Longrightarrow>
   datasets self' = datasets self \<and> loss_fn self' = loss_fn self \<and>
   results_path self' = results_path self \<and> train_df self' = train_df self"
proof (induction batches arbitrary: self losses)
  case Nil
  then show ?case by simp
next
  case (Cons b batches)
  obtain toks tgt where b: "b = (toks, tgt)" by (cases b)
  from Cons.prems show ?case unfolding b
    by (auto simp: Let_def split: prod.splits dest!: Cons.IH)
qed

lemma train_loop_append:
  "train_loop fw self losses batches =
     (fst (train_loop fw self [] batches), losses @ snd (train_loop fw self [] batches))"
proof (induction batches arbitrary: self losses)
  case Nil
  then show ?case by simp
next
  case (Cons b batches)
  obtain toks tgt where b: "b = (toks, tgt)" by (cases b)
  show ?case unfolding b
    by (simp add: Let_def split: prod.splits)
       (metis Cons.IH append.assoc fst_conv snd_conv)
qed

lemma train_loop_length: "length (snd (train_loop fw self [] batches)) = length batches"
proof (induction batches arbitrary: self)
  case Nil
  then show ?case by simp
next
  case (Cons b batches)
  obtain toks tgt where b: "b = (toks, tgt)" by (cases b)
  show ?case unfolding b
    by (simp add: Let_def split: prod.splits)
       (subst train_loop_append, simp add: Cons.IH)
qed

lemma train_loop_nth:
  "i < length batches \<Longrightarrow>
   snd (train_loop fw self [] batches) ! i =
     (case batches ! i of (toks, tgt) \<Rightarrow>
        let s = fst (train_loop fw self [] (take i batches))
        in tensor_div (Trainer_loss s (forward fw (model s) toks) tgt (gt0 toks))
             (mask_sum (gt0 toks)))"
proof (induction batches arbitrary: self i)
  case Nil
  then show ?case by simp
next
  case (Cons b batches)
  obtain toks tgt where b: "b = (toks, tgt)" by (cases b)
  obtain m opt where st: "backward_step fw (model self) (optimizer self) (loss_fn self) (toks, tgt) = (m, opt)"
    by (cases "backward_step fw (model self) (optimizer self) (loss_fn self) (toks, tgt)")
  let ?s1 = "self\<lparr>model := m, optimizer := opt\<rparr>"
  let ?l = "tensor_div (Trainer_loss self (forward fw (model self) toks) tgt (gt0 toks)) (mask_sum (gt0 toks))"
  have step: "train_loop fw self acc (b # rest) = train_loop fw ?s1 (acc @ [?l]) rest" for acc rest
    unfolding b by (simp add: Let_def st)
  show ?case
  proof (cases i)
    case 0
    have "snd (train_loop fw self [] (b # batches)) = ?l # snd (train_loop fw ?s1 [] batches)"
      unfolding step by (subst train_loop_append) simp
    then show ?thesis using 0 by (simp add: b Let_def)
  next
    case (Suc j)
    then have j: "j < length batches" using Cons.prems by simp
    have "snd (train_loop fw self [] (b # batches)) = ?l # snd (train_loop fw ?s1 [] batches)"
      unfolding step by (subst train_loop_append) simp
    moreover have "fst (train_loop fw self [] (take i (b # batches))) =
        fst (train_loop fw ?s1 [] (take j batches))"
      unfolding Suc take_Suc_Cons step by (subst train_loop_append) simp
    ultimately show ?thesis using Cons.IH[OF j, of ?s1] Suc by simp
  qed
qed

lemma Trainer_train_epoch_fields:
  "Trainer_train_epoch fw self g = (losses, self', g') \<Longrightarrow>
   datasets self' = datasets self \<and> loss_fn self' = loss_fn self \<and>
   results_path self' = results_path self \<and> train_df self' = train_df self"
  by (auto simp: Trainer_train_epoch_def Let_def split: prod.splits dest!: train_loop_fields)

lemma Trainer_train_epoch_rows:
  assumes "Trainer_train_epoch fw self g = (losses, self', g')"
    and "DataLoader_iter (randperm fw) (train_loader (datasets self)) g = (batches, g1)"
  shows "length losses = length batches \<and> g' = g1 \<and>
    (\<forall>i < length batches. losses ! i =
       (case batches ! i of (toks, tgt) \<Rightarrow>
          let s = fst (train_loop fw self [] (take i batches))
          in tensor_div (Trainer_loss s (forward fw (model s) toks) tgt (gt0 toks))
               (mask_sum (gt0 toks))))"
proof -
  have l: "losses = snd (train_loop fw self [] batches)" and g: "g' = g1"
    using assms by (auto simp: Trainer_train_epoch_def Let_def split: prod.splits)
  show ?thesis unfolding l using g train_loop_length train_loop_nth by blast
qed

lemma epoch_loop_run_epochs:
  "epoch_loop fw (self, g, acc) l =
     (case run_epochs fw self g (length l) of
        Inl e \<Rightarrow> Inl e
      | Inr (eps, self', g') \<Rightarrow>
          Inr (self', g', acc @ concat (map (\<lambda>(ls, v). map train_row ls @ [val_row v]) eps)))"
proof (induction l arbitrary: self g acc)
  case Nil
  then show ?case by simp
next
  case (Cons i l)
  obtain ls self1 g1 where te: "Trainer_train_epoch fw self g = (ls, self1, g1)"
    by (cases "Trainer_train_epoch fw self g") auto
  show ?case
  proof (cases "Trainer_validate fw self1 g1")
    case (Inl e)
    then show ?thesis by (simp add: te)
  next
    case (Inr r)
    obtain vloss vacc g2 where r: "r = ((vloss, vacc), g2)" by (cases r) auto
    have tr: "(\<lambda>train_loss. (Some train_loss, None, None)) = train_row"
      by (simp add: train_row_def fun_eq_iff)
    have vr: "(None, Some vloss, Some vacc) = val_row (vloss, vacc)" by (simp add: val_row_def)
    show ?thesis
      by (simp add: te Inr r Cons.IH Let_def tr vr split: sum.splits prod.splits)
  qed
qed

lemma run_epochs_length: "run_epochs fw self g n = Inr (eps, s, g') \<Longrightarrow> length eps = n"
proof (induction n arbitrary: self g eps)
  case 0
  then show ?case by simp
next
  case (Suc n)
  then show ?case
    by (auto simp: Let_def split: prod.splits sum.splits)
qed

lemma run_epochs_take:
  "run_epochs fw self g n = Inr (eps, s, g') \<Longrightarrow> k \<le> n \<Longrightarrow>
   \<exists>sk gk. run_epochs fw self g k = Inr (take k eps, sk, gk)"
proof (induction n arbitrary: self g eps k)
  case 0
  then show ?case by simp
next
  case (Suc n)
  show ?case
  proof (cases k)
    case 0
    then show ?thesis by simp
  next
    case (Suc j)
    obtain ls self1 g1 where te: "Trainer_train_epoch fw self g = (ls, self1, g1)"
      by (cases "Trainer_train_epoch fw self g") auto
    from Suc.prems(1) obtain v g2 eps' where
      v: "Trainer_validate fw self1 g1 = Inr (v, g2)"
      and r: "run_epochs fw self1 g2 n = Inr (eps', s, g')" and e: "eps = (ls, v) # eps'"
      by (auto simp: te Let_def split: sum.splits prod.splits)
    have "j \<le> n" using Suc Suc.prems(2) by simp
    from Suc.IH[OF r this] obtain sk gk where "run_epochs fw self1 g2 j = Inr (take j eps', sk, gk)"
      by blast
    then show ?thesis unfolding Suc e by (simp add: te v)
  qed
qed

lemma run_epochs_fields:
  "run_epochs fw self g n = Inr (eps, self', g') \<Longrightarrow>
   datasets self' = datasets self \<and> loss_fn self' = loss_fn self \<and>
   results_path self' = results_path self \<and> train_df self' = train_df self"
proof (induction n arbitrary: self g eps)
  case 0
  then show ?case by simp
next
  case (Suc n)
  obtain ls self1 g1 where te: "Trainer_train_epoch fw self g = (ls, self1, g1)"
    by (cases "Trainer_train_epoch fw self g") auto
  from Suc.prems obtain g2 eps' where
    r: "run_epochs fw self1 g2 n = Inr (eps', self', g')"
    by (auto simp: te Let_def split: sum.splits prod.splits)
  from Suc.IH[OF r] Trainer_train_epoch_fields[OF te] show ?case by simp
qed

text \<open>
  Claim C8. Whenever \<open>train(num_epoch)\<close> returns: with \<open>v0\<close> the result of the validation
  before any training and \<open>eps\<close> the list, epoch by epoch, of the losses \<open>train_epoch\<close>
  returned and of the validation result that followed, there are \<open>num_epoch\<close> epochs (none
  for a negative number), and the metrics log is \<open>spec_metrics_log v0 eps\<close>: the row
  \<open>(None, val_loss, accuracy)\<close> of \<open>v0\<close>, then for each epoch in order one row
  \<open>(train_loss, None, None)\<close> per loss and one row \<open>(None, val_loss, accuracy)\<close>. After
  \<open>k\<close> epochs the log is the one of the first \<open>k\<close> epochs, so rows are only ever appended.
  The log becomes \<open>train_df\<close> and the file \<open>train.csv\<close> under \<open>results_path\<close>, with the columns
  \<open>train_loss\<close>, \<open>val_loss\<close>, \<open>accuracy\<close>; the files of the run are those of \<open>save_model\<close> and this
  one, written after the last epoch. Every call of \<open>train_epoch\<close> returns one loss per batch
  of its pass over the training loader, in the order of the batches: the \<open>i\<close>-th is the
  masked loss of the \<open>i\<close>-th batch, divided by its number of valid tokens, under the model as
  the first \<open>i\<close> batches have updated it.
\<close>

theorem train_metrics_log:
  assumes "Trainer_train text fw self num_epoch g fs = Inr (self', g', fs')"
  shows "\<exists>v0 g0 eps self1.
    Trainer_validate fw self g = Inr (v0, g0) \<and>
    run_epochs fw self g0 (nat num_epoch) = Inr (eps, self1, g') \<and>
    length eps = nat num_epoch \<and>
    (\<forall>k \<le> nat num_epoch. \<exists>sk gk.
       epoch_loop fw (self, g0, [val_row v0]) (range_up 0 (int k) 1) =
         Inr (sk, gk, spec_metrics_log v0 (take k eps))) \<and>
    self' = self1\<lparr>train_df :=
       Some ([''train_loss'', ''val_loss'', ''accuracy''], spec_metrics_log v0 eps)\<rparr> \<and>
    fs' = (save_model text fw self1 fs)(results_path self @ ''/train.csv'' \<mapsto>
       Csv [''train_loss'', ''val_loss'', ''accuracy''] (spec_metrics_log v0 eps)) \<and>
    (\<forall>s gs losses s' gs' batches gb.
       Trainer_train_epoch fw s gs = (losses, s', gs') \<and>
       DataLoader_iter (randperm fw) (train_loader (datasets s)) gs = (batches, gb) \<longrightarrow>
       length losses = length batches \<and>
       (\<forall>i < length batches. losses ! i =
          (case batches ! i of (toks, tgt) \<Rightarrow>
             let si = fst (train_loop fw s [] (take i batches))
             in tensor_div (Trainer_loss si (forward fw (model si) toks) tgt (gt0 toks))
                  (mask_sum (gt0 toks)))))"
proof -
  from assms obtain vloss vacc g0 where v: "Trainer_validate fw self g = Inr ((vloss, vacc), g0)"
    by (auto simp: Trainer_train_def split: sum.splits prod.splits)
  let ?v0 = "(vloss, vacc)"
  have row0: "[(None, Some vloss, Some vacc)] = [val_row ?v0]" by (simp add: val_row_def)
  from assms obtain self1 all_losses where
    el0: "epoch_loop fw (self, g0, [(None, Some vloss, Some vacc)]) (range_up 0 num_epoch 1) =
        Inr (self1, g', all_losses)"
    and s': "self' = self1\<lparr>train_df := Some ([''train_loss'', ''val_loss'', ''accuracy''], all_losses)\<rparr>"
    and f': "fs' = (save_model text fw self1 fs)(results_path self1 @ ''/train.csv'' \<mapsto>
       Csv [''train_loss'', ''val_loss'', ''accuracy''] all_losses)"
    unfolding Trainer_train_def v
    by (auto simp: Let_def split: sum.splits prod.splits)
  note el = el0[unfolded row0]
  from el obtain eps where
    re: "run_epochs fw self g0 (nat num_epoch) = Inr (eps, self1, g')"
    and al: "all_losses = spec_metrics_log ?v0 eps"
    unfolding epoch_loop_run_epochs range_up_length
    by (auto simp: spec_metrics_log_def split: sum.splits prod.splits)
  have len: "length eps = nat num_epoch" using re by (rule run_epochs_length)
  have pre: "\<exists>sk gk. epoch_loop fw (self, g0, [val_row ?v0]) (range_up 0 (int k) 1) =
         Inr (sk, gk, spec_metrics_log ?v0 (take k eps))" if "k \<le> nat num_epoch" for k
  proof -
    from run_epochs_take[OF re that] obtain sk gk where
      "run_epochs fw self g0 k = Inr (take k eps, sk, gk)" by blast
    then show ?thesis
      unfolding epoch_loop_run_epochs range_up_length
      by (simp add: spec_metrics_log_def)
  qed
  have rp: "results_path self1 = results_path self" using run_epochs_fields[OF re] by simp
  have rows: "length losses = length batches \<and>
       (\<forall>i < length batches. losses ! i =
          (case batches ! i of (toks, tgt) \<Rightarrow>
             let si = fst (train_loop fw s [] (take i batches))
             in tensor_div (Trainer_loss si (forward fw (model si) toks) tgt (gt0 toks))
                  (mask_sum (gt0 toks))))"
    if "Trainer_train_epoch fw s gs = (losses, s', gs') \<and>
       DataLoader_iter (randperm fw) (train_loader (datasets s)) gs = (batches, gb)"
    for s gs losses s' gs' batches gb
    using Trainer_train_epoch_rows[of fw s gs losses s' gs' batches gb] that by blast
  show ?thesis
    apply (intro exI[of _ ?v0] exI[of _ g0] exI[of _ eps] exI[of _ self1] conjI)
    subgoal by (rule v)
    subgoal by (rule re)
    subgoal by (rule len)
    subgoal using pre by blast
    subgoal unfolding s' al ..
    subgoal unfolding f' al rp ..
    subgoal using rows by blast
    done
qed

theorem train_metrics_log_witness:
  "map_sum id (\<lambda>(s, g, fs). fs ''results/train.csv'')
     (Trainer_train ''abc'' toy_torch (toy_trainer toy_datasets) 1 () Map.empty) =
   Inr (Some (Csv [''train_loss'', ''val_loss'', ''accuracy'']
     [(None, Some (Val 2), Some (Val (1 / 2))),
      (Some (Val 3), None, None), (Some (Val 1), None, None), (Some (Val 2), None, None),
      (None, Some (Val 2), Some (Val (1 / 2)))]))"
proof -
  let ?T = "Trainer_train ''abc'' toy_torch (toy_trainer toy_datasets) 1 () Map.empty"
  have "case ?T of Inl e \<Rightarrow> False | Inr r \<Rightarrow> True" by code_simp
  then obtain self' g' fs' where t: "?T = Inr (self', g', fs')"
    by (cases ?T) auto
  from train_metrics_log[OF t] obtain v0 g0 eps self1 where
    v: "Trainer_validate toy_torch (toy_trainer toy_datasets) () = Inr (v0, g0)"
    and r: "run_epochs toy_torch (toy_trainer toy_datasets) g0 (nat 1) = Inr (eps, self1, g')"
    and f: "fs' = (save_model ''abc'' toy_torch self1 Map.empty)
        (results_path (toy_trainer toy_datasets) @ ''/train.csv'' \<mapsto>
           Csv [''train_loss'', ''val_loss'', ''accuracy''] (spec_metrics_log v0 eps))"
    by blast
  have "Trainer_validate toy_torch (toy_trainer toy_datasets) () = Inr ((Val 2, Val (1 / 2)), ())"
    by code_simp
  with v have v0: "v0 = (Val 2, Val (1 / 2))" by simp
  have "map_sum id fst (run_epochs toy_torch (toy_trainer toy_datasets) () 1) =
      Inr [([Val 3, Val 1, Val 2], (Val 2, Val (1 / 2)))]" by code_simp
  with r have eps: "eps = [([Val 3, Val 1, Val 2], (Val 2, Val (1 / 2)))]" by simp
  have p: "results_path (toy_trainer toy_datasets) @ ''/train.csv'' = ''results/train.csv''"
    by (simp add: toy_trainer_def)
  show ?thesis unfolding t f p v0 eps
    by (simp add: spec_metrics_log_def train_row_def val_row_def)
qed

section \<open>Properties of the sequence model\<close>

lemma is_Sc_along_last: "is_Sc (along_last f t) = is_Sc t"
  by (cases t) (simp_all add: vec_def)

lemma is_Sc_map_tensor: "is_Sc (map_tensor f t) = is_Sc t"
  by (cases t) simp_all

lemma tensor_rows_vec: "l \<noteq> [] \<Longrightarrow> tensor_rows (vec l) = [l]"
  by (simp add: vec_def list_all_iff comp_def)

lemma tensor_rows_along_last:
  assumes "\<And>v. length (f v) = length v"
  shows "tensor_rows (along_last f t) = map f (tensor_rows t)"
proof (induction t)
  case (Sc z)
  have "length (f [z]) = 1" using assms[of "[z]"] by simp
  then have "f [z] = [hd (f [z])]" by (cases "f [z]") auto
  then show ?case by simp
next
  case (Tn ts)
  show ?case
  proof (cases "ts \<noteq> [] \<and> list_all is_Sc ts")
    case True
    then have "f (map un_Sc ts) \<noteq> []" using assms[of "map un_Sc ts"] by auto
    then show ?thesis using True by (simp add: tensor_rows_vec)
  next
    case False
    have c: "list_all is_Sc (map (along_last f) ts) = list_all is_Sc ts"
      by (simp add: list_all_iff is_Sc_along_last)
    have "tensor_rows (along_last f (Tn ts)) = concat (map tensor_rows (map (along_last f) ts))"
      using False by (auto simp: c)
    also have "\<dots> = concat (map (\<lambda>s. map f (tensor_rows s)) ts)"
      using Tn by (simp add: comp_def cong: map_cong)
    also have "\<dots> = map f (concat (map tensor_rows ts))" by (simp add: map_concat comp_def)
    also have "\<dots> = map f (tensor_rows (Tn ts))" using False by auto
    finally show ?thesis .
  qed
qed

lemma tensor_rows_map_tensor:
  "tensor_rows (map_tensor g t) = map (map g) (tensor_rows t)"
proof (induction t)
  case (Sc z)
  then show ?case by simp
next
  case (Tn ts)
  show ?case
  proof (cases "ts \<noteq> [] \<and> list_all is_Sc ts")
    case True
    then have "map (un_Sc \<circ> map_tensor g) ts = map (g \<circ> un_Sc) ts"
      by (auto simp: list_all_iff tensor.map_sel)
    moreover have "list_all is_Sc (map (map_tensor g) ts)" using True by (simp add: list_all_iff)
    ultimately show ?thesis using True by simp
  next
    case False
    have c: "list_all is_Sc (map (map_tensor g) ts) = list_all is_Sc ts"
      by (simp add: list_all_iff is_Sc_map_tensor)
    have "tensor_rows (map_tensor g (Tn ts)) = concat (map tensor_rows (map (map_tensor g) ts))"
      using False by (auto simp: c)
    also have "\<dots> = concat (map (\<lambda>s. map (map g) (tensor_rows s)) ts)"
      using Tn by (simp add: comp_def cong: map_cong)
    also have "\<dots> = map (map g) (concat (map tensor_rows ts))" by (simp add: map_concat comp_def)
    also have "\<dots> = map (map g) (tensor_rows (Tn ts))" using False by auto
    finally show ?thesis .
  qed
qed

lemma softmax_vec_length: "length (softmax_vec v) = length v"
  by (simp add: softmax_vec_def)

lemma log_softmax_vec_length: "length (log_softmax_vec v) = length v"
  by (simp add: log_softmax_vec_def)

lemma softmax_vec_distribution:
  assumes "v \<noteq> []"
  shows "sum_list (softmax_vec v) = 1" and "\<forall>p\<in>set (softmax_vec v). 0 < p"
proof -
  let ?S = "\<Sum>y\<leftarrow>v. exp y"
  have nonneg: "0 \<le> (\<Sum>y\<leftarrow>w. exp y)" for w :: "real list"
    by (induction w) (auto intro: add_nonneg_nonneg)
  have pos: "0 < ?S" using assms nonneg
    by (cases v) (auto intro: add_pos_nonneg)
  have "sum_list (map (\<lambda>z. exp z / c) w) = (\<Sum>z\<leftarrow>w. exp z) / c" for c :: real and w
    by (induction w) (simp_all add: add_divide_distrib)
  then have "sum_list (map (\<lambda>z. exp z / ?S) v) = (\<Sum>z\<leftarrow>v. exp z) / ?S" .
  then show "sum_list (softmax_vec v) = 1" using pos by (simp add: softmax_vec_def)
  show "\<forall>p\<in>set (softmax_vec v). 0 < p" using pos by (auto simp: softmax_vec_def)
qed

text \<open>
  Claim C7. For every input, carried state and temperature \<open>t\<close>, \<open>LstmLM.predict\<close> returns
  the softmax along the last dimension of the linear layer's logits divided by \<open>t\<close>, so
  that the vector at every position is the softmax of the position's logits divided by
  \<open>t\<close>, together with the state the recurrent layer returned; skipping the division when
  \<open>t = 1.0\<close> changes nothing, since dividing by one is the identity. \<open>LstmLM.forward\<close>
  returns the log-softmax of the logits at every position, computed from the initial
  state and with no temperature. (Numbers are reals here; at \<open>t = 0\<close> the quotient is the
  one of the model's division and stands for whatever the floats' division gives.)
\<close>

theorem LstmLM_outputs:
  "LstmLM_predict m x st t =
     (along_last softmax_vec (map_tensor (\<lambda>z. z / t) (fc m (fst (lstm m (embedding m x) st)))),
      snd (lstm m (embedding m x) st)) \<and>
   tensor_rows (fst (LstmLM_predict m x st t)) =
     map (\<lambda>v. softmax_vec (map (\<lambda>z. z / t) v))
       (tensor_rows (fc m (fst (lstm m (embedding m x) st)))) \<and>
   LstmLM_forward m x = along_last log_softmax_vec (fc m (fst (lstm m (embedding m x) None))) \<and>
   tensor_rows (LstmLM_forward m x) =
     map log_softmax_vec (tensor_rows (fc m (fst (lstm m (embedding m x) None))))"
proof -
  have p: "LstmLM_predict m x st t =
     (along_last softmax_vec (map_tensor (\<lambda>z. z / t) (fc m (fst (lstm m (embedding m x) st)))),
      snd (lstm m (embedding m x) st))"
    by (cases "t = 1") (simp_all add: LstmLM_predict_def Let_def tensor.map_ident)
  have f: "LstmLM_forward m x = along_last log_softmax_vec (fc m (fst (lstm m (embedding m x) None)))"
    by (simp add: LstmLM_forward_def Let_def)
  show ?thesis unfolding p f
    by (simp add: tensor_rows_along_last tensor_rows_map_tensor comp_def
        softmax_vec_length log_softmax_vec_length)
qed

theorem LstmLM_outputs_witness:
  "tensor_rows (fst (LstmLM_predict (LstmLM_init toy_nn 2 2 50 50) (vec [1]) None 2)) =
     [softmax_vec [1 / 2, 1 / 2]] \<and>
   tensor_rows (LstmLM_forward (LstmLM_init toy_nn 2 2 50 50) (vec [1])) =
     [log_softmax_vec [1, 1]]"
proof -
  let ?m = "LstmLM_init toy_nn 2 2 50 50"
  have l: "tensor_rows (fc ?m (fst (lstm ?m (embedding ?m (vec [1])) st))) = [[1, 1]]" for st
    by (simp add: LstmLM_init_def toy_nn_def vec_def numeral_2_eq_2)
  note t = LstmLM_outputs[of ?m "vec [1]" None 2]
  have "tensor_rows (fst (LstmLM_predict ?m (vec [1]) None 2)) =
     map (\<lambda>v. softmax_vec (map (\<lambda>z. z / 2) v))
       (tensor_rows (fc ?m (fst (lstm ?m (embedding ?m (vec [1])) None))))"
    using t by (elim conjE)
  then have 1: "tensor_rows (fst (LstmLM_predict ?m (vec [1]) None 2)) = [softmax_vec [1 / 2, 1 / 2]]"
    unfolding l by simp
  have "tensor_rows (LstmLM_forward ?m (vec [1])) =
     map log_softmax_vec (tensor_rows (fc ?m (fst (lstm ?m (embedding ?m (vec [1])) None))))"
    using t by (elim conjE)
  then have 2: "tensor_rows (LstmLM_forward ?m (vec [1])) = [log_softmax_vec [1, 1]]"
    unfolding l by simp
  show ?thesis using 1 2 by (rule conjI)
qed

section \<open>Properties of the sampler\<close>

lemma tensor_last_Inl: "tensor_last t = Inl e \<Longrightarrow> e = IndexError"
  by (cases t) (auto split: if_splits)

lemma list_getitem_Inl: "list_getitem l i = Inl e \<Longrightarrow> e = IndexError"
  by (auto simp: list_getitem_def split: if_splits)

lemma predict_step_Inl:
  "predict_step corpus fw self t s = Inl e \<Longrightarrow> e = IndexError \<or> e = RuntimeError"
  by (auto simp: predict_step_def Let_def
      split: prod.splits sum.splits option.splits if_splits
      dest: tensor_last_Inl list_getitem_Inl)

lemma predict_loop_Inl:
  "predict_loop corpus fw self t s l = Inl e \<Longrightarrow> e = IndexError \<or> e = RuntimeError"
  by (induction l arbitrary: s) (auto split: sum.splits dest: predict_step_Inl)

lemma tensor_elems_vec: "tensor_elems (vec l) = l"
  by (induction l) (simp_all add: vec_def)

lemma dim0_vec: "dim0 (vec l) = length l"
  by (simp add: vec_def)

lemma along_last_vec: "r \<noteq> [] \<Longrightarrow> along_last f (vec r) = vec (f r)"
  by (simp add: vec_def list_all_iff comp_def)

lemma map_tensor_vec: "map_tensor f (vec r) = vec (map f r)"
  by (simp add: vec_def)

lemma along_last_rows:
  assumes "rws \<noteq> []" and "\<forall>r\<in>set rws. r \<noteq> []"
  shows "along_last f (Tn (map vec rws)) = Tn (map (\<lambda>r. vec (f r)) rws)"
proof -
  have "\<not> list_all is_Sc (map vec rws)"
    using assms(1) by (cases rws) (simp_all add: vec_def)
  then have "along_last f (Tn (map vec rws)) = Tn (map (along_last f) (map vec rws))"
    by simp
  also have "map (along_last f) (map vec rws) = map (\<lambda>r. vec (f r)) rws"
    using assms(2) by (simp add: along_last_vec)
  finally show ?thesis .
qed

text \<open>The output of \<open>LstmLM.predict\<close> when the linear layer returns rows of scores.\<close>

lemma LstmLM_predict_rows:
  assumes "fc m (fst (lstm m (embedding m x) st)) = Tn (map vec rws)"
    and "rws \<noteq> []" and "\<forall>r\<in>set rws. r \<noteq> []"
  shows "fst (LstmLM_predict m x st t) =
      Tn (map (\<lambda>r. vec (softmax_vec (map (\<lambda>z. z / t) r))) rws)"
proof -
  have d: "map_tensor (\<lambda>z. z / t) (Tn (map vec rws)) = Tn (map vec (map (map (\<lambda>z. z / t)) rws))"
    by (simp add: map_tensor_vec comp_def)
  have "fst (LstmLM_predict m x st t) =
      along_last softmax_vec (map_tensor (\<lambda>z. z / t) (Tn (map vec rws)))"
    by (cases "t = 1") (simp_all add: LstmLM_predict_def Let_def assms(1) tensor.map_ident)
  also have "\<dots> = Tn (map (\<lambda>r. vec (softmax_vec r)) (map (map (\<lambda>z. z / t)) rws))"
    unfolding d using assms(2,3) by (intro along_last_rows) auto
  finally show ?thesis by (simp add: comp_def)
qed

lemma snd_LstmLM_predict:
  "snd (LstmLM_predict m x st t) = snd (lstm m (embedding m x) st)"
  by (simp add: LstmLM_predict_def Let_def)

text \<open>One iteration, under the layers' and the sampler's contracts.\<close>

lemma predict_step_Inr:
  assumes toks: "toks \<noteq> []" "list_all (\<lambda>t. t < num_embeddings (predictor_model self)) toks"
    and t: "temperature \<noteq> 0"
    and ls: "list_all (\<lambda>l. l \<noteq> [] \<and> list_all (\<lambda>t. t < num_embeddings (predictor_model self)) l) ls"
    and sizes: "num_classes (predictor_model self) = vocab_size corpus" "0 < vocab_size corpus"
    and layers: "\<forall>l ls.
          list_all (\<lambda>l. l \<noteq> [] \<and> list_all (\<lambda>t. t < num_embeddings (predictor_model self)) l)
            (l # ls) \<longrightarrow>
          (\<exists>rws. fc (predictor_model self) (fst (lstm (predictor_model self)
                    (embedding (predictor_model self) (vec l))
                    (carried (predictor_model self) ls))) = Tn (map vec rws) \<and>
                 length rws = length l \<and>
                 (\<forall>r\<in>set rws. length r = num_classes (predictor_model self)))"
    and smp: "\<forall>p g. p \<noteq> [] \<and> (\<forall>x\<in>set p. 0 < x) \<and> sum_list p = 1 \<longrightarrow>
          (\<exists>i g'. multinomial fw (vec p) g = Some (i, g') \<and> i < length p)"
  shows "\<exists>idx ch g1.
     predict_step corpus fw self temperature
       (vec toks, carried (predictor_model self) ls, gen, g) =
       Inr (vec [idx], carried (predictor_model self) (toks # ls), gen @ [ch], g1) \<and>
     idx < vocab_size corpus"
proof -
  let ?m = "predictor_model self"
  let ?st = "carried ?m ls"
  have "list_all (\<lambda>l. l \<noteq> [] \<and> list_all (\<lambda>t. t < num_embeddings ?m) l) (toks # ls)"
    using toks ls by simp
  with layers obtain rws where
    rws: "fc ?m (fst (lstm ?m (embedding ?m (vec toks)) ?st)) = Tn (map vec rws)"
      "length rws = length toks" "\<forall>r\<in>set rws. length r = num_classes ?m"
    by blast
  have ne: "rws \<noteq> []" using rws(2) toks(1) by auto
  have rne: "\<forall>r\<in>set rws. r \<noteq> []" using rws(3) sizes by auto
  let ?p = "softmax_vec (map (\<lambda>z. z / temperature) (last rws))"
  have out: "fst (LstmLM_predict ?m (vec toks) ?st temperature) =
      Tn (map (\<lambda>r. vec (softmax_vec (map (\<lambda>z. z / temperature) r))) rws)"
    by (rule LstmLM_predict_rows[OF rws(1) ne rne])
  have lst: "tensor_last (fst (LstmLM_predict ?m (vec toks) ?st temperature)) = Inr (vec ?p)"
    unfolding out using ne by (simp add: last_map)
  have lr: "last rws \<in> set rws" using ne by simp
  then have len: "length ?p = vocab_size corpus"
    using rws(3) sizes(1) by (simp add: softmax_vec_length)
  have pne: "map (\<lambda>z. z / temperature) (last rws) \<noteq> []" using lr rne by simp
  have "?p \<noteq> [] \<and> (\<forall>x\<in>set ?p. 0 < x) \<and> sum_list ?p = 1"
    using softmax_vec_distribution[OF pne] len sizes(2) by auto
  with smp obtain i g' where i: "multinomial fw (vec ?p) g = Some (i, g')" "i < length ?p"
    by blast
  have iv: "i < length (vocab corpus)" using i(2) len by (simp add: vocab_size_def)
  have c: "Some (snd (LstmLM_predict ?m (vec toks) ?st temperature)) = carried ?m (toks # ls)"
    by (simp add: snd_LstmLM_predict)
  have "predict_step corpus fw self temperature (vec toks, ?st, gen, g) =
      Inr (vec [i], Some (snd (LstmLM_predict ?m (vec toks) ?st temperature)),
           gen @ [vocab corpus ! i], g')"
    using toks t iv
    by (simp add: predict_step_def tensor_elems_vec dim0_vec case_prod_unfold Let_def
        lst i(1) list_getitem_def)
  then show ?thesis using iv unfolding c by (auto simp: vocab_size_def)
qed

lemma predict_step_result:
  assumes "predict_step corpus fw self t (toks, st, gen, g) = Inr s'"
  shows "\<exists>probs idx g'.
     tensor_last (fst (LstmLM_predict (predictor_model self) toks st t)) = Inr probs \<and>
     multinomial fw probs g = Some (idx, g') \<and>
     idx < length (vocab corpus) \<and>
     s' = (vec [idx], Some (snd (LstmLM_predict (predictor_model self) toks st t)),
           gen @ [vocab corpus ! idx], g')"
  using assms
  by (auto simp: predict_step_def Let_def case_prod_unfold list_getitem_def
      split: sum.splits if_splits option.splits)

lemma predict_loop_trace:
  assumes sizes: "num_classes (predictor_model self) = vocab_size corpus"
      "num_embeddings (predictor_model self) = vocab_size corpus"
    and layers: "\<forall>l ls.
          list_all (\<lambda>l. l \<noteq> [] \<and> list_all (\<lambda>t. t < num_embeddings (predictor_model self)) l)
            (l # ls) \<longrightarrow>
          (\<exists>rws. fc (predictor_model self) (fst (lstm (predictor_model self)
                    (embedding (predictor_model self) (vec l))
                    (carried (predictor_model self) ls))) = Tn (map vec rws) \<and>
                 length rws = length l \<and>
                 (\<forall>r\<in>set rws. length r = num_classes (predictor_model self)))"
    and smp: "\<forall>p g. p \<noteq> [] \<and> (\<forall>x\<in>set p. 0 < x) \<and> sum_list p = 1 \<longrightarrow>
          (\<exists>i g'. multinomial fw (vec p) g = Some (i, g') \<and> i < length p)"
    and inv: "list_all (\<lambda>t. t < num_embeddings (predictor_model self)) toks"
      "list_all (\<lambda>l. l \<noteq> [] \<and> list_all (\<lambda>t. t < num_embeddings (predictor_model self)) l) ls"
    and run: "l = [] \<or> (toks \<noteq> [] \<and> t \<noteq> 0 \<and> 0 < vocab_size corpus)"
  shows "\<exists>ss. length ss = length l + 1 \<and>
     ss ! 0 = (vec toks, carried (predictor_model self) ls, gen, g) \<and>
     (\<forall>k < length l. predict_step corpus fw self t (ss ! k) = Inr (ss ! Suc k)) \<and>
     (\<forall>k \<le> length l. length (fst (snd (snd (ss ! k)))) = length gen + k) \<and>
     predict_loop corpus fw self t (vec toks, carried (predictor_model self) ls, gen, g) l =
       Inr (ss ! length l)"
  using inv run
proof (induction l arbitrary: toks ls gen g)
  case Nil
  show ?case
    by (intro exI[of _ "[(vec toks, carried (predictor_model self) ls, gen, g)]"]) simp
next
  case (Cons i l)
  let ?st = "carried (predictor_model self) ls"
  let ?st1 = "carried (predictor_model self) (toks # ls)"
  from Cons.prems have r: "toks \<noteq> []" "t \<noteq> 0" "0 < vocab_size corpus" by simp_all
  from predict_step_Inr[OF r(1) Cons.prems(1) r(2) Cons.prems(2) sizes(1) r(3) layers smp, of gen g]
  obtain idx ch g1 where
    ps: "predict_step corpus fw self t (vec toks, ?st, gen, g) = Inr (vec [idx], ?st1, gen @ [ch], g1)"
    and idx: "idx < vocab_size corpus" by blast
  have i1: "list_all (\<lambda>t. t < num_embeddings (predictor_model self)) [idx]"
    using idx sizes(2) by simp
  have i2: "list_all (\<lambda>l. l \<noteq> [] \<and> list_all (\<lambda>t. t < num_embeddings (predictor_model self)) l)
      (toks # ls)"
    using r(1) Cons.prems(1,2) by simp
  have "l = [] \<or> ([idx] \<noteq> [] \<and> t \<noteq> 0 \<and> 0 < vocab_size corpus)" using r by simp
  from Cons.IH[OF i1 i2 this, of "gen @ [ch]" g1] obtain ss where ss:
    "length ss = length l + 1" "ss ! 0 = (vec [idx], ?st1, gen @ [ch], g1)"
    "\<forall>k < length l. predict_step corpus fw self t (ss ! k) = Inr (ss ! Suc k)"
    "\<forall>k \<le> length l. length (fst (snd (snd (ss ! k)))) = length (gen @ [ch]) + k"
    "predict_loop corpus fw self t (vec [idx], ?st1, gen @ [ch], g1) l = Inr (ss ! length l)"
    by blast
  let ?ss = "(vec toks, ?st, gen, g) # ss"
  have a: "\<forall>k < length (i # l). predict_step corpus fw self t (?ss ! k) = Inr (?ss ! Suc k)"
  proof (intro allI impI)
    fix k assume "k < length (i # l)"
    then show "predict_step corpus fw self t (?ss ! k) = Inr (?ss ! Suc k)"
      using ps ss(2,3) by (cases k) auto
  qed
  have b: "\<forall>k \<le> length (i # l). length (fst (snd (snd (?ss ! k)))) = length gen + k"
  proof (intro allI impI)
    fix k assume "k \<le> length (i # l)"
    then show "length (fst (snd (snd (?ss ! k)))) = length gen + k"
      using ss(4) by (cases k) auto
  qed
  have c: "predict_loop corpus fw self t (vec toks, ?st, gen, g) (i # l) = Inr (?ss ! length (i # l))"
    using ps ss(5) by simp
  show ?case
    by (intro exI[of _ ?ss] conjI a b c) (simp_all add: ss(1))
qed

lemma encode_the:
  "\<forall>c\<in>set cs. d c \<noteq> None \<Longrightarrow> encode d cs = Inr (map (\<lambda>c. the (d c)) cs)"
  by (induction cs) (auto simp: getitem_def split: option.splits)

lemma char2idx_range:
  assumes "c \<in> set (train_set corpus)"
  shows "the (char2idx corpus c) < vocab_size corpus"
proof -
  from assms obtain i where i: "char2idx corpus c = Some i"
    using dom_char2idx[of corpus] by (auto simp: dom_def)
  then have "i < length (vocab corpus)" by (simp add: char2idx_Some)
  then show ?thesis by (simp add: i vocab_size_def)
qed

lemma vocab_size_pos: "c \<in> set (train_set corpus) \<Longrightarrow> 0 < vocab_size corpus"
  using char2idx_range[of c corpus] by simp

text \<open>
  Claim C6, as the code has it. Let the seed's characters all be in the training split.
  Unless no character is asked for (\<open>max_length \<le> 0\<close>), let the seed be non-empty and the
  temperature be other than \<open>0\<close>. Let the model be sized by the module's vocabulary, as
  \<open>Predictor.__init__\<close> sizes it when \<open>vocab.json\<close> holds that vocabulary. Let the framework
  keep its contracts: called on a non-empty sequence of tokens of the embedding's range,
  with the state carried from earlier calls of that kind (\<open>None\<close> when there was none), the
  layers return one row of \<open>num_classes\<close> scores per token;
  and from a non-empty vector of positive probabilities that sum to one, \<open>multinomial\<close>
  returns an index of that vector. Then \<open>Predictor.predict\<close> returns a string of
  \<open>max_length\<close> characters (none for a negative \<open>max_length\<close>). The loop goes through the
  states \<open>ss\<close>: it starts from the seed's tokens with the state \<open>None\<close> and an empty string,
  each iteration is one \<open>predict_step\<close>, after \<open>k\<close> iterations \<open>k\<close> characters have been
  generated, and every state after the first holds a single token and a carried
  recurrent state. Every iteration that returns, under any conditions, has called the
  model on the current tokens and state, has sampled an index of the module's vocabulary
  from the last row of the output, and leaves, for the next iteration, the single token
  it sampled and the state the model returned.
\<close>

theorem predict_generation:
  assumes enc: "\<forall>c\<in>set text. c \<in> set (train_set corpus)"
    and ne: "text \<noteq> [] \<or> max_length \<le> 0"
    and tmp: "temperature \<noteq> 0 \<or> max_length \<le> 0"
    and sizes: "num_classes (predictor_model self) = vocab_size corpus \<and>
          num_embeddings (predictor_model self) = vocab_size corpus"
    and layers: "\<forall>l ls.
          list_all (\<lambda>l. l \<noteq> [] \<and> list_all (\<lambda>t. t < num_embeddings (predictor_model self)) l)
            (l # ls) \<longrightarrow>
          (\<exists>rws. fc (predictor_model self) (fst (lstm (predictor_model self)
                    (embedding (predictor_model self) (vec l))
                    (carried (predictor_model self) ls))) = Tn (map vec rws) \<and>
                 length rws = length l \<and>
                 (\<forall>r\<in>set rws. length r = num_classes (predictor_model self)))"
    and smp: "\<forall>p g. p \<noteq> [] \<and> (\<forall>x\<in>set p. 0 < x) \<and> sum_list p = 1 \<longrightarrow>
          (\<exists>i g'. multinomial fw (vec p) g = Some (i, g') \<and> i < length p)"
  shows "(\<exists>ss. length ss = nat max_length + 1 \<and>
       ss ! 0 = (vec (map (\<lambda>c. the (char2idx corpus c)) text), None, [], g) \<and>
       (\<forall>k < nat max_length. predict_step corpus fw self temperature (ss ! k) = Inr (ss ! Suc k)) \<and>
       (\<forall>k \<le> nat max_length. length (fst (snd (snd (ss ! k)))) = k) \<and>
       (\<forall>k < nat max_length. \<exists>idx st'.
          fst (ss ! Suc k) = vec [idx] \<and> fst (snd (ss ! Suc k)) = Some st') \<and>
       Predictor_predict corpus fw self text max_length temperature g =
         Inr (snd (snd (ss ! nat max_length))) \<and>
       length (fst (snd (snd (ss ! nat max_length)))) = nat max_length) \<and>
     (\<forall>toks st gen gs s'.
        predict_step corpus fw self temperature (toks, st, gen, gs) = Inr s' \<longrightarrow>
        (\<exists>probs idx g'.
           tensor_last (fst (LstmLM_predict (predictor_model self) toks st temperature)) = Inr probs \<and>
           multinomial fw probs gs = Some (idx, g') \<and>
           idx < length (vocab corpus) \<and>
           s' = (vec [idx],
                 Some (snd (LstmLM_predict (predictor_model self) toks st temperature)),
                 gen @ [vocab corpus ! idx], g')))"
proof -
  let ?idxs = "map (\<lambda>c. the (char2idx corpus c)) text"
  let ?l = "range_up 0 max_length 1"
  have "\<forall>c\<in>set text. char2idx corpus c \<noteq> None"
    using enc dom_char2idx[of corpus] by (auto simp: dom_def)
  then have e: "encode (char2idx corpus) text = Inr ?idxs" by (rule encode_the)
  have len: "length ?l = nat max_length" by (rule range_up_length)
  have s1: "num_classes (predictor_model self) = vocab_size corpus"
    and s2: "num_embeddings (predictor_model self) = vocab_size corpus"
    using sizes by simp_all
  have i1: "list_all (\<lambda>t. t < num_embeddings (predictor_model self)) ?idxs"
    using enc by (simp add: list_all_iff s2 char2idx_range)
  have run: "?l = [] \<or> (?idxs \<noteq> [] \<and> temperature \<noteq> 0 \<and> 0 < vocab_size corpus)"
  proof (cases "max_length \<le> 0")
    case True
    then show ?thesis using len by simp
  next
    case False
    then have "text \<noteq> []" "temperature \<noteq> 0" using ne tmp by simp_all
    moreover from this(1) enc have "0 < vocab_size corpus"
      by (cases "text") (auto intro: vocab_size_pos)
    ultimately show ?thesis by simp
  qed
  have i2: "list_all (\<lambda>l. l \<noteq> [] \<and> list_all (\<lambda>t. t < num_embeddings (predictor_model self)) l) []"
    by simp
  note tr = predict_loop_trace[OF s1 s2 layers smp i1 i2 run, of "[]" g, unfolded carried.simps(1)]
  from tr obtain ss where ss:
    "length ss = length ?l + 1" "ss ! 0 = (vec ?idxs, None, [], g)"
    "\<forall>k < length ?l. predict_step corpus fw self temperature (ss ! k) = Inr (ss ! Suc k)"
    "\<forall>k \<le> length ?l. length (fst (snd (snd (ss ! k)))) = length ([]::'a list) + k"
    "predict_loop corpus fw self temperature (vec ?idxs, None, [], g) ?l = Inr (ss ! length ?l)"
    by blast
  have r: "Predictor_predict corpus fw self text max_length temperature g =
      Inr (snd (snd (ss ! nat max_length)))"
    by (simp add: Predictor_predict_def e ss(5) len case_prod_unfold)
  have 2: "\<exists>probs idx g'.
           tensor_last (fst (LstmLM_predict (predictor_model self) toks st temperature)) = Inr probs \<and>
           multinomial fw probs gs = Some (idx, g') \<and>
           idx < length (vocab corpus) \<and>
           s' = (vec [idx],
                 Some (snd (LstmLM_predict (predictor_model self) toks st temperature)),
                 gen @ [vocab corpus ! idx], g')"
    if "predict_step corpus fw self temperature (toks, st, gen, gs) = Inr s'" for toks st gen gs s'
    using predict_step_result[OF that] by blast
  have single: "\<exists>idx st'. fst (ss ! Suc k) = vec [idx] \<and> fst (snd (ss ! Suc k)) = Some st'"
    if "k < nat max_length" for k
  proof -
    obtain toks st gen gs where sk: "ss ! k = (toks, st, gen, gs)" by (cases "ss ! k") auto
    from that ss(3) len have "predict_step corpus fw self temperature (ss ! k) = Inr (ss ! Suc k)"
      by simp
    from 2[OF this[unfolded sk]] show ?thesis by auto
  qed
  have 1: "\<exists>ss. length ss = nat max_length + 1 \<and>
       ss ! 0 = (vec ?idxs, None, [], g) \<and>
       (\<forall>k < nat max_length. predict_step corpus fw self temperature (ss ! k) = Inr (ss ! Suc k)) \<and>
       (\<forall>k \<le> nat max_length. length (fst (snd (snd (ss ! k)))) = k) \<and>
       (\<forall>k < nat max_length. \<exists>idx st'.
          fst (ss ! Suc k) = vec [idx] \<and> fst (snd (ss ! Suc k)) = Some st') \<and>
       Predictor_predict corpus fw self text max_length temperature g =
         Inr (snd (snd (ss ! nat max_length))) \<and>
       length (fst (snd (snd (ss ! nat max_length)))) = nat max_length"
    using ss r single unfolding len by (intro exI[of _ ss]) simp
  show ?thesis using 1 2 by blast
qed

lemma toy_vocab: "vocab ''aabbaabbaa'' = ''ab''" by code_simp
lemma toy_ranges: "range_up 0 2 1 = [0, 1]" "range_up 0 1 1 = [0]" by code_simp+
lemma toy_char2idx: "char2idx ''aabbaabbaa'' CHR ''a'' = Some 0" "char2idx ''aabbaabbaa'' CHR ''b'' = Some 1"
  by (simp_all add: char2idx_Some toy_vocab)
lemma toy_encode_ab: "encode (char2idx ''aabbaabbaa'') ''ab'' = Inr [0, 1]"
  by (simp add: getitem_def toy_char2idx)
lemma toy_encode_b: "encode (char2idx ''aabbaabbaa'') ''b'' = Inr [1]"
  by (simp add: getitem_def toy_char2idx)
lemma toy_encode_empty: "encode (char2idx ''aabbaabbaa'') [] = Inr []"
  by simp

lemmas toy_simps = predict_step_def LstmLM_predict_def LstmLM_init_def
  toy_nn_def toy_predictor_def vec_def list_getitem_def Let_def

lemma predict_KeyError_iff:
  "Predictor_predict corpus fw self text max_length temperature g = Inl KeyError \<longleftrightarrow>
   (\<exists>c\<in>set text. c \<notin> set (train_set corpus))"
proof -
  have k: "encode (char2idx corpus) text = Inl KeyError \<longleftrightarrow> (\<exists>c\<in>set text. c \<notin> set (train_set corpus))"
  proof -
    have "char2idx corpus c = None \<longleftrightarrow> c \<notin> set (train_set corpus)" for c
      by (metis domIff dom_char2idx)
    then show ?thesis unfolding encode_KeyError_iff by simp
  qed
  show ?thesis
  proof (cases "encode (char2idx corpus) text")
    case (Inl e)
    then have "e = KeyError" by (auto dest: encode_Inl)
    then show ?thesis using Inl k by (simp add: Predictor_predict_def)
  next
    case (Inr idxs)
    then have "Predictor_predict corpus fw self text max_length temperature g \<noteq> Inl KeyError"
      by (auto simp: Predictor_predict_def split: sum.splits dest: predict_loop_Inl)
    then show ?thesis using Inr k by simp
  qed
qed

text \<open>
  Claim C2, as the code has it. \<open>Predictor.predict\<close> encodes the seed with the module's
  \<open>char2idx\<close>, the mapping of the vocabulary built from the training split of the corpus
  the module read, whatever vocabulary the constructor loaded from \<open>vocab.json\<close>: it raises
  \<open>KeyError\<close> exactly when the seed has a character that is not in the training split, and
  otherwise the loop starts from the tensor of the characters' indices in that mapping.
\<close>

theorem predict_encoding:
  "(Predictor_predict corpus fw self text max_length temperature g = Inl KeyError \<longleftrightarrow>
      (\<exists>c\<in>set text. c \<notin> set (train_set corpus))) \<and>
   ((\<forall>c\<in>set text. c \<in> set (train_set corpus)) \<longrightarrow>
      encode (char2idx corpus) text = Inr (map (\<lambda>c. the (char2idx corpus c)) text) \<and>
      map (char2idx corpus) text = map Some (map (\<lambda>c. the (char2idx corpus c)) text) \<and>
      Predictor_predict corpus fw self text max_length temperature g =
        (case predict_loop corpus fw self temperature
                (vec (map (\<lambda>c. the (char2idx corpus c)) text), None, [], g)
                (range_up 0 max_length 1) of
           Inl e \<Rightarrow> Inl e
         | Inr (tokens, states, generated, g') \<Rightarrow> Inr (generated, g')))"
proof (intro conjI impI)
  show "Predictor_predict corpus fw self text max_length temperature g = Inl KeyError \<longleftrightarrow>
      (\<exists>c\<in>set text. c \<notin> set (train_set corpus))" by (rule predict_KeyError_iff)
next
  assume a: "\<forall>c\<in>set text. c \<in> set (train_set corpus)"
  then have "\<forall>c\<in>set text. char2idx corpus c \<noteq> None"
    using dom_char2idx[of corpus] by (auto simp: dom_def)
  then show e: "encode (char2idx corpus) text = Inr (map (\<lambda>c. the (char2idx corpus c)) text)"
    by (rule encode_the)
  then show "map (char2idx corpus) text = map Some (map (\<lambda>c. the (char2idx corpus c)) text)"
    by (simp only: encode_Inr_iff)
  show "Predictor_predict corpus fw self text max_length temperature g =
        (case predict_loop corpus fw self temperature
                (vec (map (\<lambda>c. the (char2idx corpus c)) text), None, [], g)
                (range_up 0 max_length 1) of
           Inl e \<Rightarrow> Inl e
         | Inr (tokens, states, generated, g') \<Rightarrow> Inr (generated, g'))"
    by (simp add: Predictor_predict_def e)
qed

lemma toy_train_set: "train_set ''aabbaabbaa'' = ''aabbaab''"
  by (simp add: train_set_def train_size_def)

theorem predict_encoding_witness:
  "Predictor_predict ''aabbaabbaa'' toy_nn toy_predictor ''ac'' 3 1 0 = Inl KeyError \<and>
   encode (char2idx ''aabbaabbaa'') ''ab'' = Inr [0, 1]"
proof -
  note t = predict_encoding[of "''aabbaabbaa''" toy_nn toy_predictor _ 3 1 0]
  have "\<exists>c\<in>set ''ac''. c \<notin> set (train_set ''aabbaabbaa'')" by (simp add: toy_train_set)
  with t[of "''ac''"] have 1: "Predictor_predict ''aabbaabbaa'' toy_nn toy_predictor ''ac'' 3 1 0 = Inl KeyError"
    by blast
  have "\<forall>c\<in>set ''ab''. c \<in> set (train_set ''aabbaabbaa'')" by (simp add: toy_train_set)
  with t[of "''ab''"] have "encode (char2idx ''aabbaabbaa'') ''ab'' =
      Inr (map (\<lambda>c. the (char2idx ''aabbaabbaa'' c)) ''ab'')" by blast
  then have 2: "encode (char2idx ''aabbaabbaa'') ''ab'' = Inr [0, 1]" by (simp add: toy_char2idx)
  show ?thesis using 1 2 by simp
qed

text \<open>
  The persisted vocabulary does not decide the lookup: with \<open>vocab.json\<close> holding \<open>abc\<close> and
  a module whose corpus has the training split \<open>aabbaab\<close>, the predictor built from the
  files raises \<open>KeyError\<close> on the seed \<open>c\<close>, a character of the persisted vocabulary. The
  error is raised before the model is called.
\<close>

theorem predict_encoding_counterexample:
  "toy_fs ''results/vocab.json'' = Some (JsonArray ''abc'') \<and>
   Predictor_init toy_nn toy_fs ''results'' =
     Inr \<lparr>predictor_model = LstmLM_init toy_nn 3 3 50 50\<rparr> \<and>
   CHR ''c'' \<in> set ''abc'' \<and>
   Predictor_predict ''aabbaabbaa'' toy_nn \<lparr>predictor_model = LstmLM_init toy_nn 3 3 50 50\<rparr>
     ''c'' 1 1 0 = Inl KeyError"
proof -
  have "\<exists>c\<in>set ''c''. c \<notin> set (train_set ''aabbaabbaa'')" by (simp add: toy_train_set)
  then have "Predictor_predict ''aabbaabbaa'' toy_nn \<lparr>predictor_model = LstmLM_init toy_nn 3 3 50 50\<rparr>
     ''c'' 1 1 0 = Inl KeyError" by (simp only: predict_KeyError_iff)
  moreover have "Predictor_init toy_nn toy_fs ''results'' =
     Inr \<lparr>predictor_model = LstmLM_init toy_nn 3 3 50 50\<rparr>"
    by (simp add: Predictor_init_def toy_fs_def toy_nn_def numeral_3_eq_3)
  ultimately show ?thesis by (simp add: toy_fs_def)
qed

text \<open>The empty seed encodes (to no token) and the first iteration raises.\<close>

lemma predict_empty_seed:
  assumes "0 < max_length"
  shows "Predictor_predict corpus fw self [] max_length temperature g = Inl RuntimeError"
proof -
  have s: "predict_step corpus fw self temperature (vec [], None, [], g) = Inl RuntimeError"
    by (simp add: predict_step_def vec_def)
  have "range_up 0 max_length 1 = 0 # range_up 1 max_length 1"
    using assms by (subst range_up.simps) simp
  then show ?thesis by (simp add: Predictor_predict_def s)
qed

lemma toy_layers:
  assumes "l \<noteq> []"
  shows "fc (LstmLM_init toy_nn c n e h) (fst (lstm (LstmLM_init toy_nn c n e h)
             (embedding (LstmLM_init toy_nn c n e h) (vec l)) st)) =
         Tn (map vec (map (\<lambda>t. replicate c (real t)) l))"
proof -
  have e: "toy_embed (vec l) = Tn (map vec (map (\<lambda>t. [real t]) l))"
    by (simp add: vec_def)
  have "along_last (\<lambda>v. replicate c (sum_list v)) (Tn (map vec (map (\<lambda>t. [real t]) l))) =
      Tn (map (\<lambda>r. vec (replicate c (sum_list r))) (map (\<lambda>t. [real t]) l))"
    using assms by (intro along_last_rows) auto
  then show ?thesis
    by (simp add: LstmLM_init_def toy_nn_def e comp_def)
qed

lemma toy_sampler:
  "p \<noteq> [] \<Longrightarrow> multinomial toy_nn (vec p) g = Some (g mod length p, Suc g)"
  by (simp add: toy_nn_def dim0_vec)

text \<open>One iteration over \<open>toy_nn\<close>, for a model of any sizes.\<close>

lemma toy_step:
  assumes "l \<noteq> []" and "list_all (\<lambda>t. t < n) l" and "t \<noteq> 0" and "0 < c"
  shows "predict_step corpus toy_nn \<lparr>predictor_model = LstmLM_init toy_nn c n e h\<rparr> t
           (vec l, st, gen, g) =
     (case list_getitem (vocab corpus) (g mod c) of
        Inl err \<Rightarrow> Inl err
      | Inr ch \<Rightarrow>
          Inr (vec [g mod c],
               Some (snd (LstmLM_predict (LstmLM_init toy_nn c n e h) (vec l) st t)),
               gen @ [ch], Suc g))"
proof -
  let ?m = "LstmLM_init toy_nn c n e h"
  let ?rws = "map (\<lambda>t. replicate c (real t)) l"
  let ?p = "softmax_vec (map (\<lambda>z. z / t) (last ?rws))"
  have fc: "fc ?m (fst (lstm ?m (embedding ?m (vec l)) st)) = Tn (map vec ?rws)"
    by (rule toy_layers[OF assms(1)])
  have "fst (LstmLM_predict ?m (vec l) st t) =
      Tn (map (\<lambda>r. vec (softmax_vec (map (\<lambda>z. z / t) r))) ?rws)"
    using assms(1,4) by (intro LstmLM_predict_rows[OF fc]) auto
  then have lst: "tensor_last (fst (LstmLM_predict ?m (vec l) st t)) = Inr (vec ?p)"
    using assms(1) by (simp add: last_map)
  have len: "length ?p = c" using assms(1) by (simp add: softmax_vec_length last_map)
  then have "?p \<noteq> []" using assms(4) by auto
  then have s: "multinomial toy_nn (vec ?p) g = Some (g mod c, Suc g)"
    using toy_sampler[of ?p g] len by simp
  have n: "num_embeddings ?m = n" by (simp add: LstmLM_init_def)
  show ?thesis
    using assms(1,2,3)
    by (simp add: predict_step_def n tensor_elems_vec dim0_vec case_prod_unfold lst s
        split: sum.splits)
qed

text \<open>
  Seeds that encode and for which no string is returned, in a module whose vocabulary is
  \<open>ab\<close> and with a framework that keeps the contracts. The empty seed encodes to no token,
  and the recurrent layer refuses the empty sequence in the first iteration. At
  temperature \<open>0\<close> the sampler is given \<open>nan\<close> and refuses it. A model with three
  classes, as built from a \<open>vocab.json\<close> of three characters, samples the index \<open>2\<close>, which
  is not an index of the module's vocabulary. A model with one embedding, as built from a
  \<open>vocab.json\<close> of one character, cannot embed the token \<open>1\<close> of the seed \<open>b\<close>.
\<close>

theorem predict_generation_counterexample:
  "(encode (char2idx ''aabbaabbaa'') [] = Inr [] \<and>
    Predictor_predict ''aabbaabbaa'' toy_nn toy_predictor [] 1 1 0 = Inl RuntimeError) \<and>
   (encode (char2idx ''aabbaabbaa'') ''ab'' = Inr [0, 1] \<and>
    Predictor_predict ''aabbaabbaa'' toy_nn toy_predictor ''ab'' 1 0 0 = Inl RuntimeError) \<and>
   (vocab ''aabbaabbaa'' = ''ab'' \<and>
    Predictor_predict ''aabbaabbaa'' toy_nn \<lparr>predictor_model = LstmLM_init toy_nn 3 3 50 50\<rparr>
      ''ab'' 1 1 2 = Inl IndexError) \<and>
   (encode (char2idx ''aabbaabbaa'') ''b'' = Inr [1] \<and>
    Predictor_predict ''aabbaabbaa'' toy_nn \<lparr>predictor_model = LstmLM_init toy_nn 1 1 50 50\<rparr>
      ''b'' 1 1 0 = Inl IndexError)"
proof -
  have 1: "Predictor_predict ''aabbaabbaa'' toy_nn toy_predictor [] 1 1 0 = Inl RuntimeError"
    unfolding Predictor_predict_def toy_encode_empty toy_ranges by (simp add: toy_simps)
  have 2: "Predictor_predict ''aabbaabbaa'' toy_nn toy_predictor ''ab'' 1 0 0 = Inl RuntimeError"
    unfolding Predictor_predict_def toy_encode_ab toy_ranges by (simp add: toy_simps)
  have "predict_step ''aabbaabbaa'' toy_nn \<lparr>predictor_model = LstmLM_init toy_nn 3 3 50 50\<rparr> 1
      (vec [0, 1], None, [], 2) = Inl IndexError"
    by (subst toy_step) (simp_all add: toy_vocab list_getitem_def)
  then have 3: "Predictor_predict ''aabbaabbaa'' toy_nn \<lparr>predictor_model = LstmLM_init toy_nn 3 3 50 50\<rparr>
      ''ab'' 1 1 2 = Inl IndexError"
    unfolding Predictor_predict_def toy_encode_ab toy_ranges by simp
  have 4: "Predictor_predict ''aabbaabbaa'' toy_nn \<lparr>predictor_model = LstmLM_init toy_nn 1 1 50 50\<rparr>
      ''b'' 1 1 0 = Inl IndexError"
    unfolding Predictor_predict_def toy_encode_b toy_ranges by (simp add: toy_simps)
  show ?thesis
    by (intro conjI toy_encode_empty toy_encode_ab toy_encode_b toy_vocab 1 2 3 4)
qed

theorem predict_generation_witness:
  "Predictor_predict ''aabbaabbaa'' toy_nn toy_predictor ''ab'' 2 1 0 = Inr (''ab'', 2) \<and>
   length ''ab'' = nat 2"
proof -
  let ?m = "predictor_model toy_predictor"
  have enc: "\<forall>c\<in>set ''ab''. c \<in> set (train_set ''aabbaabbaa'')" by (simp add: toy_train_set)
  have ne: "''ab'' \<noteq> [] \<or> (2::int) \<le> 0" by simp
  have tmp: "(1::real) \<noteq> 0 \<or> (2::int) \<le> 0" by simp
  have sizes: "num_classes ?m = vocab_size ''aabbaabbaa'' \<and>
      num_embeddings ?m = vocab_size ''aabbaabbaa''"
    by (simp add: toy_predictor_def LstmLM_init_def vocab_size_def toy_vocab)
  have layers: "\<forall>l ls.
          list_all (\<lambda>l. l \<noteq> [] \<and> list_all (\<lambda>t. t < num_embeddings ?m) l) (l # ls) \<longrightarrow>
          (\<exists>rws. fc ?m (fst (lstm ?m (embedding ?m (vec l)) (carried ?m ls))) = Tn (map vec rws) \<and>
                 length rws = length l \<and> (\<forall>r\<in>set rws. length r = num_classes ?m))"
  proof (intro allI impI)
    fix l :: "nat list" and ls
    assume "list_all (\<lambda>l. l \<noteq> [] \<and> list_all (\<lambda>t. t < num_embeddings ?m) l) (l # ls)"
    then have "l \<noteq> []" by simp
    then have "fc ?m (fst (lstm ?m (embedding ?m (vec l)) (carried ?m ls))) =
        Tn (map vec (map (\<lambda>t. replicate 2 (real t)) l))"
      unfolding toy_predictor_def Predictor.simps by (rule toy_layers)
    then show "\<exists>rws. fc ?m (fst (lstm ?m (embedding ?m (vec l)) (carried ?m ls))) = Tn (map vec rws) \<and>
                 length rws = length l \<and> (\<forall>r\<in>set rws. length r = num_classes ?m)"
      by (intro exI[of _ "map (\<lambda>t. replicate 2 (real t)) l"])
         (simp add: toy_predictor_def LstmLM_init_def)
  qed
  have smp: "\<forall>p g. p \<noteq> [] \<and> (\<forall>x\<in>set p. 0 < x) \<and> sum_list p = 1 \<longrightarrow>
          (\<exists>i g'. multinomial toy_nn (vec p) g = Some (i, g') \<and> i < length p)"
    by (simp add: toy_sampler)
  from predict_generation[OF enc ne tmp sizes layers smp, of 0]
  obtain ss :: "(nat tensor \<times> lstm_state option \<times> string \<times> nat) list" where
    r: "Predictor_predict ''aabbaabbaa'' toy_nn toy_predictor ''ab'' 2 1 0 =
         Inr (snd (snd (ss ! nat 2)))"
    and l: "length (fst (snd (snd (ss ! nat 2)))) = nat 2" by blast
  have c: "Predictor_predict ''aabbaabbaa'' toy_nn toy_predictor ''ab'' 2 1 0 = Inr (''ab'', 2)"
    unfolding Predictor_predict_def toy_encode_ab toy_ranges toy_vocab
    by (simp add: toy_simps toy_vocab softmax_vec_def)
  from r c l show ?thesis by simp
qed

section \<open>Persistence and reloading\<close>

text \<open>After \<open>save_model\<close>, a predictor built from the trainer's results directory finds both
  files, sizes its fresh model by the module's vocabulary and loads the state dictionary
  of the trainer's model into it.\<close>

lemma save_model_then_init:
  "Predictor_init fw' (save_model text fw self fs) (results_path self) =
     (case load_state_dict fw' (LstmLM_init fw' (vocab_size text) (vocab_size text) 50 50)
             (state_dict fw (model self)) of
        Inl e \<Rightarrow> Inl e
      | Inr m \<Rightarrow> Inr \<lparr>predictor_model = m\<rparr>)"
  by (simp add: Predictor_init_def save_model_def vocab_size_def Let_def)

lemma LstmLM_sizes_init: "LstmLM_sizes (LstmLM_init fw c n e h) = (c, n, e, h)"
  by (simp add: LstmLM_sizes_def LstmLM_init_def)

lemma LstmLM_layers_update:
  "LstmLM_sizes m0 = LstmLM_sizes m \<Longrightarrow>
   m0\<lparr>embedding := embedding m, lstm := lstm m, fc := fc m\<rparr> = m"
  by (cases m0, cases m) (simp add: LstmLM_sizes_def)

text \<open>
  Claim C9, as the code has it. Let the framework keep the contract of a state
  dictionary: loading the state dictionary of a model \<open>m\<close> into a model \<open>m0\<close> of the same
  sizes makes \<open>m0\<close> compute with the layers of \<open>m\<close>, and is refused with \<open>RuntimeError\<close> when
  the sizes differ. \<open>Predictor.__init__\<close> builds its fresh model with the sizes
  \<open>len(vocab)\<close>, \<open>len(vocab)\<close>, \<open>50\<close> and \<open>50\<close>. So for a trainer whose model has these sizes,
  the predictor built from the files \<open>save_model\<close> wrote holds the trainer's model, and
  \<open>predict\<close> gives, for every seed, length, temperature and state of the sampling
  generator, what it gives with the model in memory: the same string and the same next
  state of the generator, or the same error. For a trainer whose model has any other
  sizes, building the predictor raises \<open>RuntimeError\<close>, and nothing is generated.
\<close>

theorem persist_reload_round_trip:
  fixes self :: "(LstmLM, 'o) Trainer"
  assumes rt: "\<forall>m0 m. load_state_dict nn m0 (state_dict fw m) =
       (if LstmLM_sizes m0 = LstmLM_sizes m
        then Inr (m0\<lparr>embedding := embedding m, lstm := lstm m, fc := fc m\<rparr>)
        else Inl RuntimeError)"
  shows "(LstmLM_sizes (model self) = (vocab_size corpus, vocab_size corpus, 50, 50) \<longrightarrow>
            Predictor_init nn (save_model corpus fw self fs) (results_path self) =
              Inr \<lparr>predictor_model = model self\<rparr> \<and>
            (\<forall>p. Predictor_init nn (save_model corpus fw self fs) (results_path self) = Inr p \<longrightarrow>
               (\<forall>corpus' text max_length temperature g.
                  Predictor_predict corpus' nn p text max_length temperature g =
                  Predictor_predict corpus' nn \<lparr>predictor_model = model self\<rparr>
                    text max_length temperature g))) \<and>
         (LstmLM_sizes (model self) \<noteq> (vocab_size corpus, vocab_size corpus, 50, 50) \<longrightarrow>
            Predictor_init nn (save_model corpus fw self fs) (results_path self) =
              Inl RuntimeError)"
proof (intro conjI impI)
  let ?m0 = "LstmLM_init nn (vocab_size corpus) (vocab_size corpus) 50 50"
  let ?init = "Predictor_init nn (save_model corpus fw self fs) (results_path self)"
  have l: "load_state_dict nn ?m0 (state_dict fw (model self)) =
       (if LstmLM_sizes ?m0 = LstmLM_sizes (model self)
        then Inr (?m0\<lparr>embedding := embedding (model self), lstm := lstm (model self),
                       fc := fc (model self)\<rparr>)
        else Inl RuntimeError)"
    using rt by blast
  {
    assume s: "LstmLM_sizes (model self) = (vocab_size corpus, vocab_size corpus, 50, 50)"
    then have e: "LstmLM_sizes ?m0 = LstmLM_sizes (model self)"
      by (simp add: LstmLM_sizes_init)
    have "load_state_dict nn ?m0 (state_dict fw (model self)) = Inr (model self)"
      unfolding l using e by (simp add: LstmLM_layers_update)
    then show i: "?init = Inr \<lparr>predictor_model = model self\<rparr>"
      by (simp add: save_model_then_init)
    show "\<forall>p. ?init = Inr p \<longrightarrow>
       (\<forall>corpus' text max_length temperature g.
          Predictor_predict corpus' nn p text max_length temperature g =
          Predictor_predict corpus' nn \<lparr>predictor_model = model self\<rparr>
            text max_length temperature g)"
      unfolding i by simp
  }
  {
    assume s: "LstmLM_sizes (model self) \<noteq> (vocab_size corpus, vocab_size corpus, 50, 50)"
    then have e: "LstmLM_sizes ?m0 \<noteq> LstmLM_sizes (model self)"
      by (simp add: LstmLM_sizes_init)
    have "load_state_dict nn ?m0 (state_dict fw (model self)) = Inl RuntimeError"
      unfolding l using e by simp
    then show "?init = Inl RuntimeError"
      by (simp add: save_model_then_init)
  }
qed

lemma strict_round_trip:
  "load_state_dict strict_nn m0 (state_dict strict_torch m) =
     (if LstmLM_sizes m0 = LstmLM_sizes m
      then Inr (m0\<lparr>embedding := embedding m, lstm := lstm m, fc := fc m\<rparr>)
      else Inl RuntimeError)"
  by (simp add: strict_nn_def strict_torch_def)

lemma strict_predict_ab:
  "Predictor_predict ''aabbaabbaa'' strict_nn \<lparr>predictor_model = LstmLM_init strict_nn 2 2 50 h\<rparr>
     ''ab'' 2 1 0 = Inr (''ab'', 2)"
  unfolding Predictor_predict_def toy_encode_ab toy_ranges
  by (simp add: predict_step_def LstmLM_predict_def LstmLM_init_def strict_nn_def vec_def
      list_getitem_def Let_def toy_vocab softmax_vec_def)

lemma strict_results_path: "results_path (strict_trainer m) = ''results''"
  and strict_model: "model (strict_trainer m) = m"
  by (simp_all add: strict_trainer_def)

theorem persist_reload_round_trip_witness:
  "Predictor_init strict_nn
     (save_model ''aabbaabbaa'' strict_torch (strict_trainer (LstmLM_init strict_nn 2 2 50 50))
        Map.empty) ''results'' =
     Inr \<lparr>predictor_model = LstmLM_init strict_nn 2 2 50 50\<rparr> \<and>
   Predictor_predict ''aabbaabbaa'' strict_nn
     \<lparr>predictor_model = LstmLM_init strict_nn 2 2 50 50\<rparr> ''ab'' 2 1 0 = Inr (''ab'', 2) \<and>
   Predictor_init strict_nn
     (save_model ''aabbaabbaa'' strict_torch (strict_trainer (LstmLM_init strict_nn 2 2 50 10))
        Map.empty) ''results'' = Inl RuntimeError"
proof -
  have rt: "\<forall>m0 m. load_state_dict strict_nn m0 (state_dict strict_torch m) =
       (if LstmLM_sizes m0 = LstmLM_sizes m
        then Inr (m0\<lparr>embedding := embedding m, lstm := lstm m, fc := fc m\<rparr>)
        else Inl RuntimeError)"
    by (simp add: strict_round_trip)
  have v: "vocab_size ''aabbaabbaa'' = 2" by (simp add: vocab_size_def toy_vocab)
  note t = persist_reload_round_trip[OF rt, of _ "''aabbaabbaa''" Map.empty]
  have s1: "LstmLM_sizes (model (strict_trainer (LstmLM_init strict_nn 2 2 50 50))) =
      (vocab_size ''aabbaabbaa'', vocab_size ''aabbaabbaa'', 50, 50)"
    by (simp add: strict_model LstmLM_sizes_init v)
  have s2: "LstmLM_sizes (model (strict_trainer (LstmLM_init strict_nn 2 2 50 10))) \<noteq>
      (vocab_size ''aabbaabbaa'', vocab_size ''aabbaabbaa'', 50, 50)"
    by (simp add: strict_model LstmLM_sizes_init v)
  from t[of "strict_trainer (LstmLM_init strict_nn 2 2 50 50)"] s1
  have 1: "Predictor_init strict_nn
     (save_model ''aabbaabbaa'' strict_torch (strict_trainer (LstmLM_init strict_nn 2 2 50 50))
        Map.empty) ''results'' =
     Inr \<lparr>predictor_model = LstmLM_init strict_nn 2 2 50 50\<rparr>"
    unfolding strict_results_path strict_model by blast
  from t[of "strict_trainer (LstmLM_init strict_nn 2 2 50 10)"] s2
  have 3: "Predictor_init strict_nn
     (save_model ''aabbaabbaa'' strict_torch (strict_trainer (LstmLM_init strict_nn 2 2 50 10))
        Map.empty) ''results'' = Inl RuntimeError"
    unfolding strict_results_path strict_model by blast
  show ?thesis by (intro conjI 1 3 strict_predict_ab)
qed

text \<open>
  A trainer's model with hidden size \<open>10\<close>, in a module whose vocabulary is \<open>ab\<close>: in memory
  it generates the string \<open>ab\<close> from the seed \<open>ab\<close>; after \<open>save_model\<close>, building the
  predictor raises \<open>RuntimeError\<close> when the state dictionary is loaded into the fresh
  model of hidden size \<open>50\<close>, so nothing is generated after reloading.
\<close>

theorem persist_reload_round_trip_counterexample:
  "vocab ''aabbaabbaa'' = ''ab'' \<and>
   Predictor_predict ''aabbaabbaa'' strict_nn
     \<lparr>predictor_model = LstmLM_init strict_nn 2 2 50 10\<rparr> ''ab'' 2 1 0 = Inr (''ab'', 2) \<and>
   Predictor_init strict_nn
     (save_model ''aabbaabbaa'' strict_torch (strict_trainer (LstmLM_init strict_nn 2 2 50 10))
        Map.empty) ''results'' = Inl RuntimeError"
proof -
  have v: "vocab_size ''aabbaabbaa'' = 2" by (simp add: vocab_size_def toy_vocab)
  have "Predictor_init strict_nn
     (save_model ''aabbaabbaa'' strict_torch (strict_trainer (LstmLM_init strict_nn 2 2 50 10))
        Map.empty) (results_path (strict_trainer (LstmLM_init strict_nn 2 2 50 10))) =
      Inl RuntimeError"
    unfolding save_model_then_init strict_round_trip strict_model v
    by (simp add: LstmLM_sizes_init)
  then show ?thesis
    unfolding strict_results_path by (intro conjI toy_vocab strict_predict_ab)
qed

end
